theory Spec2Isabelle
  imports
    Complex_Main
    "HOL-Library.Multiset"
    "HOL-Library.Char_ord"
    "HOL-Library.List_Lexorder"
begin

section \<open>Python values\<close>

text \<open>
  The order-type pipeline of the tracker application works on dictionaries produced by the
  invoice extractor. A value held by such a dictionary is \<open>None\<close>, a string or a number.

  A number is an \<open>int\<close>, a \<open>float\<close> or a \<open>Decimal\<close>, and is modelled by its value: a
  rational, an infinity with its sign (\<open>True\<close> for the negative one), a quiet NaN or a
  signaling NaN. The sign of a zero and the exponent of a representation are not kept:
  no comparison, truth test or arithmetic result of the pipeline depends on them.

  A string is a list of characters with code points below 256, so the string
  methods are modelled on that range, which holds all of ASCII and Latin-1.
\<close>

datatype dec = Fin rat | Infty bool | NaN | SNaN

datatype pyval = PNone | PStr string | PNum dec

type_synonym pydict = "string \<rightharpoonup> pyval"

datatype error = AttributeError | InvalidOperation | Overflow | DivisionByZero

text \<open>\<open>d.get(k)\<close>: a missing key reads as \<open>None\<close>.\<close>

definition get :: "pydict \<Rightarrow> string \<Rightarrow> pyval" where
  "get d k = (case d k of None \<Rightarrow> PNone | Some v \<Rightarrow> v)"

text \<open>Truth value testing: \<open>None\<close>, the empty string and a zero are false; infinities and
  NaNs are true.\<close>

fun truthy :: "pyval \<Rightarrow> bool" where
  "truthy PNone = False"
| "truthy (PStr s) = (s \<noteq> [])"
| "truthy (PNum d) = (d \<noteq> Fin 0)"

text \<open>\<open>a or b\<close>.\<close>

definition py_or :: "pyval \<Rightarrow> pyval \<Rightarrow> pyval" where
  "py_or a b = (if truthy a then a else b)"

section \<open>String methods\<close>

text \<open>The characters \<open>str.isspace\<close> accepts below 256: tab, line feed, vertical tab, form
  feed, carriage return, the four separators 0x1C to 0x1F, the space, the next-line
  control 0x85 and the no-break space 0xA0.\<close>

definition is_space :: "char \<Rightarrow> bool" where
  "is_space c = (c \<in> set [CHR 0x09, CHR 0x0A, CHR 0x0B, CHR 0x0C, CHR 0x0D,
                            CHR 0x1C, CHR 0x1D, CHR 0x1E, CHR 0x1F, CHR 0x20,
                            CHR 0x85, CHR 0xA0])"

text \<open>\<open>s.strip()\<close>.\<close>

definition strip :: "string \<Rightarrow> string" where
  "strip s = rev (dropWhile is_space (rev (dropWhile is_space s)))"

text \<open>\<open>s.lower()\<close>: the letters \<open>A\<close> to \<open>Z\<close> and the Latin-1 capitals 0xC0 to 0xDE,
  the multiplication sign 0xD7 apart, move up by 32; every other character below 256
  is its own lower case.\<close>

definition lower_char :: "char \<Rightarrow> char" where
  "lower_char c =
     (let n = (of_char c :: nat)
      in if (65 \<le> n \<and> n \<le> 90) \<or> (192 \<le> n \<and> n \<le> 222 \<and> n \<noteq> 215)
         then char_of (n + 32) else c)"

definition lower :: "string \<Rightarrow> string" where
  "lower s = map lower_char s"

text \<open>\<open>s.split()\<close> without argument: the maximal runs of non-space characters.
  The first argument is the word being read.\<close>

fun split_acc :: "string \<Rightarrow> string \<Rightarrow> string list" where
  "split_acc cur [] = (if cur = [] then [] else [cur])"
| "split_acc cur (c # cs) =
     (if is_space c then (if cur = [] then split_acc [] cs else cur # split_acc [] cs)
      else split_acc (cur @ [c]) cs)"

definition split :: "string \<Rightarrow> string list" where
  "split s = split_acc [] s"

text \<open>\<open>sep.join(ws)\<close>.\<close>

fun join :: "string \<Rightarrow> string list \<Rightarrow> string" where
  "join sep [] = []"
| "join sep [w] = w"
| "join sep (w # ws) = w @ sep @ join sep ws"

text \<open>\<open>s.startswith(p)\<close> and \<open>needle in s\<close> for strings.\<close>

fun starts_with :: "string \<Rightarrow> string \<Rightarrow> bool" where
  "starts_with [] s = True"
| "starts_with (p # ps) [] = False"
| "starts_with (p # ps) (c # cs) = (p = c \<and> starts_with ps cs)"

fun contains :: "string \<Rightarrow> string \<Rightarrow> bool" where
  "contains needle [] = (needle = [])"
| "contains needle (c # cs) = (starts_with needle (c # cs) \<or> contains needle cs)"

section \<open>Decimal arithmetic\<close>

text \<open>
  The arithmetic of the \<open>decimal\<close> module in its default context: 28 significant digits,
  rounding half to even, exponents between \<open>Emin = -999999\<close> and \<open>Emax = 999999\<close>, and
  the traps \<open>InvalidOperation\<close>, \<open>DivisionByZero\<close> and \<open>Overflow\<close>, which raise. An
  operation on finite operands returns its exact result rounded to the context, and a
  result below the normal range is rounded at \<open>Etiny = Emin - 27\<close>.
\<close>

definition pow10 :: "int \<Rightarrow> rat" where
  "pow10 z = (if 0 \<le> z then 10 ^ nat z else 1 / 10 ^ nat (- z))"

text \<open>The number of decimal digits of a positive integer, and the adjusted exponent of a
  non-zero number, which is the exponent of its leading digit.\<close>

function digits10 :: "int \<Rightarrow> nat" where
  "digits10 n = (if n < 10 then 1 else Suc (digits10 (n div 10)))"
  by pat_completeness auto
termination
  by (relation "measure nat") auto

definition adjusted :: "rat \<Rightarrow> int" where
  "adjusted r =
     (let a = \<bar>r\<bar>
      in if 1 \<le> a then int (digits10 \<lfloor>a\<rfloor>) - 1
         else - int (digits10 (\<lceil>1 / a\<rceil> - 1)))"

definition round_half_even :: "rat \<Rightarrow> int" where
  "round_half_even x =
     (let f = \<lfloor>x\<rfloor>; d = x - of_int f
      in if d < 1 / 2 then f
         else if 1 / 2 < d then f + 1
         else if even f then f else f + 1)"

definition etiny :: int where
  "etiny = - 1000026"

definition emax :: int where
  "emax = 999999"

text \<open>Rounding an exact result to the context.\<close>

definition round_ctx :: "rat \<Rightarrow> error + dec" where
  "round_ctx r =
     (if r = 0 then Inr (Fin 0)
      else
        (let q = max (adjusted r - 27) etiny;
             v = of_int (round_half_even (r / pow10 q)) * pow10 q
         in if v = 0 then Inr (Fin 0)
            else if emax < adjusted v then Inl Overflow
            else Inr (Fin v)))"

text \<open>\<open>a + b\<close>.\<close>

fun dadd :: "dec \<Rightarrow> dec \<Rightarrow> error + dec" where
  "dadd SNaN b = Inl InvalidOperation"
| "dadd a SNaN = Inl InvalidOperation"
| "dadd NaN b = Inr NaN"
| "dadd a NaN = Inr NaN"
| "dadd (Infty s) (Infty t) = (if s = t then Inr (Infty s) else Inl InvalidOperation)"
| "dadd (Infty s) (Fin y) = Inr (Infty s)"
| "dadd (Fin x) (Infty t) = Inr (Infty t)"
| "dadd (Fin x) (Fin y) = round_ctx (x + y)"

text \<open>\<open>a * b\<close>.\<close>

fun dmul :: "dec \<Rightarrow> dec \<Rightarrow> error + dec" where
  "dmul SNaN b = Inl InvalidOperation"
| "dmul a SNaN = Inl InvalidOperation"
| "dmul NaN b = Inr NaN"
| "dmul a NaN = Inr NaN"
| "dmul (Infty s) (Infty t) = Inr (Infty (s \<noteq> t))"
| "dmul (Infty s) (Fin y) = (if y = 0 then Inl InvalidOperation else Inr (Infty (s \<noteq> (y < 0))))"
| "dmul (Fin x) (Infty t) = (if x = 0 then Inl InvalidOperation else Inr (Infty ((x < 0) \<noteq> t)))"
| "dmul (Fin x) (Fin y) = round_ctx (x * y)"

text \<open>\<open>a / b\<close>.\<close>

fun ddiv :: "dec \<Rightarrow> dec \<Rightarrow> error + dec" where
  "ddiv SNaN b = Inl InvalidOperation"
| "ddiv a SNaN = Inl InvalidOperation"
| "ddiv NaN b = Inr NaN"
| "ddiv a NaN = Inr NaN"
| "ddiv (Infty s) (Infty t) = Inl InvalidOperation"
| "ddiv (Infty s) (Fin y) = Inr (Infty (s \<noteq> (y < 0)))"
| "ddiv (Fin x) (Infty t) = Inr (Fin 0)"
| "ddiv (Fin x) (Fin y) =
     (if y = 0 then (if x = 0 then Inl InvalidOperation else Inl DivisionByZero)
      else round_ctx (x / y))"

text \<open>\<open>a > 0\<close>: an ordering comparison with a NaN raises.\<close>

fun dgt0 :: "dec \<Rightarrow> error + bool" where
  "dgt0 (Fin x) = Inr (0 < x)"
| "dgt0 (Infty s) = Inr (\<not> s)"
| "dgt0 NaN = Inl InvalidOperation"
| "dgt0 SNaN = Inl InvalidOperation"

text \<open>Adding the numbers of a list to a start value, from left to right: the running
  sum \<open>acc += x\<close>, and \<open>sum(xs)\<close> from 0.\<close>

fun dsum_from :: "dec \<Rightarrow> dec list \<Rightarrow> error + dec" where
  "dsum_from a [] = Inr a"
| "dsum_from a (x # xs) = (case dadd a x of Inl e \<Rightarrow> Inl e | Inr s \<Rightarrow> dsum_from s xs)"

definition dsum :: "dec list \<Rightarrow> error + dec" where
  "dsum xs = dsum_from (Fin 0) xs"

section \<open>Decimal construction\<close>

text \<open>
  \<open>Decimal(str(v))\<close>. For a number the text is its own numeral, so the value is kept. For
  a string the constructor strips white space, removes underscores and accepts, without
  regard to case, an optional sign followed by digits with an optional point (at least
  one digit) and an optional exponent, or by \<open>Inf\<close>, \<open>Infinity\<close>, or \<open>NaN\<close> or \<open>sNaN\<close>
  with optional digits; the conversion is exact. Anything else raises, which is \<open>None\<close>
  here; every call of the pipeline that can meet it sits in a \<open>try\<close> or is guarded.
\<close>

definition digit_val :: "char \<Rightarrow> int option" where
  "digit_val c = map_of (zip ''0123456789'' [0, 1, 2, 3, 4, 5, 6, 7, 8, 9]) c"

definition is_digit :: "char \<Rightarrow> bool" where
  "is_digit c = (digit_val c \<noteq> None)"

definition digits_val :: "string \<Rightarrow> int" where
  "digits_val ds = foldl (\<lambda>n c. 10 * n + (case digit_val c of None \<Rightarrow> 0 | Some d \<Rightarrow> d)) 0 ds"

definition split_sign :: "string \<Rightarrow> int \<times> string" where
  "split_sign s =
     (case s of
        [] \<Rightarrow> (1, [])
      | c # r \<Rightarrow> if c = CHR ''-'' then (- 1, r) else if c = CHR ''+'' then (1, r) else (1, s))"

definition is_exp_mark :: "char \<Rightarrow> bool" where
  "is_exp_mark c = (c = CHR ''e'' \<or> c = CHR ''E'')"

text \<open>The finite numerals.\<close>

definition finite_of_string :: "int \<Rightarrow> string \<Rightarrow> rat option" where
  "finite_of_string sg body =
     (let mant = takeWhile (\<lambda>c. \<not> is_exp_mark c) body;
          ex = dropWhile (\<lambda>c. \<not> is_exp_mark c) body;
          ip = takeWhile is_digit mant;
          rest = dropWhile is_digit mant;
          fr = (case rest of
                  [] \<Rightarrow> Some []
                | c # r \<Rightarrow> if c = CHR ''.'' \<and> list_all is_digit r then Some r else None);
          e = (case ex of
                 [] \<Rightarrow> Some 0
               | _ # x \<Rightarrow>
                   (let (se, ds) = split_sign x
                    in if ds \<noteq> [] \<and> list_all is_digit ds
                       then Some (se * digits_val ds) else None))
      in case (fr, e) of
           (Some f, Some n) \<Rightarrow>
             if ip @ f = [] then None
             else Some (of_int (sg * digits_val (ip @ f)) * pow10 (n - int (length f)))
         | _ \<Rightarrow> None)"

text \<open>The special values, on the lower-cased text after the sign.\<close>

definition special_of_string :: "int \<Rightarrow> string \<Rightarrow> dec option" where
  "special_of_string sg low =
     (if low = ''inf'' \<or> low = ''infinity'' then Some (Infty (sg < 0))
      else if starts_with ''nan'' low \<and> list_all is_digit (drop 3 low) then Some NaN
      else if starts_with ''snan'' low \<and> list_all is_digit (drop 4 low) then Some SNaN
      else None)"

definition decimal_of_string :: "string \<Rightarrow> dec option" where
  "decimal_of_string s =
     (let t = filter (\<lambda>c. c \<noteq> CHR ''_'') (strip s);
          (sg, body) = split_sign t
      in case special_of_string sg (lower body) of
           Some d \<Rightarrow> Some d
         | None \<Rightarrow> map_option Fin (finite_of_string sg body))"

fun to_decimal :: "pyval \<Rightarrow> dec option" where
  "to_decimal PNone = None"
| "to_decimal (PStr s) = decimal_of_string s"
| "to_decimal (PNum d) = Some d"

section \<open>Line-item aggregator\<close>

text \<open>
  \<open>_aggregate_items\<close> of \<open>views_invoice.py\<close> (an Isabelle name cannot start with an
  underscore). Its first loop reads each extracted item and accumulates it in \<open>bucket\<close>,
  a dictionary from the grouping key to the group; the second loop turns every group
  into an output dictionary, in insertion order. The bucket is an association list in
  insertion order. An exception leaves the function at once, so each loop returns the
  first error it meets.
\<close>

text \<open>\<open>v.strip()\<close> where \<open>v\<close> may be any value: only a string has the method.\<close>

fun str_strip :: "pyval \<Rightarrow> error + string" where
  "str_strip (PStr s) = Inr (strip s)"
| "str_strip v = Inl AttributeError"

text \<open>What the loop body reads from one item, before it touches the bucket.\<close>

record parsed =
  p_key :: string
  p_code :: string
  p_desc :: string
  p_qty :: dec
  p_unit :: "string option"
  p_rate :: "dec option"
  p_value :: "dec option"

definition item_desc :: "pydict \<Rightarrow> error + string" where
  "item_desc it = str_strip (py_or (get it ''description'') (PStr ''Item''))"

definition item_code :: "pydict \<Rightarrow> error + string" where
  "item_code it = str_strip (py_or (py_or (get it ''item_code'') (get it ''code'')) (PStr []))"

definition item_key :: "string \<Rightarrow> string \<Rightarrow> string" where
  "item_key code desc = (if code \<noteq> [] then code else join '' '' (split (lower desc)))"

definition item_qty :: "pydict \<Rightarrow> dec" where
  "item_qty it =
     (case to_decimal (py_or (get it ''qty'') (PNum (Fin 1))) of None \<Rightarrow> Fin 1 | Some q \<Rightarrow> q)"

definition item_unit :: "pydict \<Rightarrow> error + string option" where
  "item_unit it =
     (case str_strip (py_or (get it ''unit'') (PStr [])) of
        Inl e \<Rightarrow> Inl e
      | Inr u \<Rightarrow> Inr (if u \<noteq> [] then Some u else None))"

definition item_rate :: "pydict \<Rightarrow> dec option" where
  "item_rate it = (if truthy (get it ''rate'') then to_decimal (get it ''rate'') else None)"

definition item_value :: "pydict \<Rightarrow> dec option" where
  "item_value it = (if get it ''value'' \<noteq> PNone then to_decimal (get it ''value'') else None)"

definition parse_item :: "pydict \<Rightarrow> error + parsed" where
  "parse_item it =
     (case item_desc it of
        Inl e \<Rightarrow> Inl e
      | Inr desc \<Rightarrow>
     (case item_code it of
        Inl e \<Rightarrow> Inl e
      | Inr code \<Rightarrow>
     (case item_unit it of
        Inl e \<Rightarrow> Inl e
      | Inr unit \<Rightarrow>
          Inr \<lparr>p_key = item_key code desc, p_code = code, p_desc = desc,
               p_qty = item_qty it, p_unit = unit,
               p_rate = item_rate it, p_value = item_value it\<rparr>)))"

record group =
  g_code :: pyval
  g_description :: string
  g_qty :: dec
  g_unit :: "string option"
  g_rates :: "dec list"
  g_values :: "dec list"

type_synonym bucket = "(string \<times> group) list"

definition new_group :: "parsed \<Rightarrow> group" where
  "new_group p =
     \<lparr>g_code = (if p_code p \<noteq> [] then PStr (p_code p) else PNone),
      g_description = p_desc p, g_qty = Fin 0, g_unit = p_unit p,
      g_rates = [], g_values = []\<rparr>"

text \<open>What the loop appends for a rate or a value: nothing for \<open>None\<close> and for a zero,
  which is falsy.\<close>

definition nonzero :: "dec option \<Rightarrow> dec list" where
  "nonzero x = (case x of None \<Rightarrow> [] | Some d \<Rightarrow> if d \<noteq> Fin 0 then [d] else [])"

text \<open>The four accumulating statements; only the addition to the quantity can raise.\<close>

definition accumulate :: "parsed \<Rightarrow> group \<Rightarrow> error + group" where
  "accumulate p g =
     (case dadd (g_qty g) (p_qty p) of
        Inl e \<Rightarrow> Inl e
      | Inr q \<Rightarrow>
          Inr (g\<lparr>g_qty := q,
                 g_unit := (if p_unit p \<noteq> None \<and> g_unit g = None then p_unit p else g_unit g),
                 g_rates := g_rates g @ nonzero (p_rate p),
                 g_values := g_values g @ nonzero (p_value p)\<rparr>))"

text \<open>One turn of the first loop on the bucket: the entry of the key is made when it is
  missing, and then updated.\<close>

definition update_bucket :: "bucket \<Rightarrow> parsed \<Rightarrow> error + bucket" where
  "update_bucket b p =
     (let b' = (if p_key p \<in> set (map fst b) then b else b @ [(p_key p, new_group p)])
      in case map_of b' (p_key p) of
           None \<Rightarrow> Inr b'
         | Some g \<Rightarrow>
             (case accumulate p g of
                Inl e \<Rightarrow> Inl e
              | Inr g' \<Rightarrow> Inr (map (\<lambda>(k, v). if k = p_key p then (k, g') else (k, v)) b')))"

fun fill_bucket :: "bucket \<Rightarrow> pydict list \<Rightarrow> error + bucket" where
  "fill_bucket b [] = Inr b"
| "fill_bucket b (it # its) =
     (case parse_item it of
        Inl e \<Rightarrow> Inl e
      | Inr p \<Rightarrow>
          (case update_bucket b p of
             Inl e \<Rightarrow> Inl e
           | Inr b' \<Rightarrow> fill_bucket b' its))"

text \<open>The second loop: \<open>final_qty\<close>, \<open>unit_price\<close> and the output dictionary of a group.\<close>

definition final_qty :: "group \<Rightarrow> error + dec" where
  "final_qty v =
     (case dgt0 (g_qty v) of
        Inl e \<Rightarrow> Inl e
      | Inr positive \<Rightarrow> Inr (if positive then g_qty v else Fin 1))"

definition unit_price :: "group \<Rightarrow> dec \<Rightarrow> error + dec" where
  "unit_price v fq =
     (if g_rates v \<noteq> []
      then (case dsum (g_rates v) of
              Inl e \<Rightarrow> Inl e
            | Inr s \<Rightarrow> ddiv s (Fin (of_nat (length (g_rates v)))))
      else if g_values v \<noteq> []
      then (case dsum (g_values v) of
              Inl e \<Rightarrow> Inl e
            | Inr total_value \<Rightarrow>
                (case dgt0 fq of
                   Inl e \<Rightarrow> Inl e
                 | Inr positive \<Rightarrow> if positive then ddiv total_value fq else Inr (Fin 0)))
      else Inr (Fin 0))"

definition out_item :: "group \<Rightarrow> error + pydict" where
  "out_item v =
     (case final_qty v of
        Inl e \<Rightarrow> Inl e
      | Inr fq \<Rightarrow>
          (case unit_price v fq of
             Inl e \<Rightarrow> Inl e
           | Inr up \<Rightarrow>
               Inr [''code'' \<mapsto> g_code v,
                    ''description'' \<mapsto> PStr (g_description v),
                    ''qty'' \<mapsto> PNum fq,
                    ''unit'' \<mapsto> (case g_unit v of None \<Rightarrow> PNone | Some u \<Rightarrow> PStr u),
                    ''unit_price'' \<mapsto> PNum up]))"

fun finish_bucket :: "bucket \<Rightarrow> error + (string \<times> pydict) list" where
  "finish_bucket [] = Inr []"
| "finish_bucket ((k, v) # b) =
     (case out_item v of
        Inl e \<Rightarrow> Inl e
      | Inr d \<Rightarrow>
          (case finish_bucket b of
             Inl e \<Rightarrow> Inl e
           | Inr r \<Rightarrow> Inr ((k, d) # r)))"

text \<open>The aggregator with the key of every output entry kept beside it, and the
  aggregator itself.\<close>

definition aggregate_keyed :: "pydict list \<Rightarrow> error + (string \<times> pydict) list" where
  "aggregate_keyed items_list =
     (case fill_bucket [] items_list of
        Inl e \<Rightarrow> Inl e
      | Inr b \<Rightarrow> finish_bucket b)"

definition aggregate_items :: "pydict list \<Rightarrow> error + pydict list" where
  "aggregate_items items_list =
     (case aggregate_keyed items_list of
        Inl e \<Rightarrow> Inl e
      | Inr kout \<Rightarrow> Inr (map snd kout))"

section \<open>Category normalizer and order-type detector\<close>

text \<open>\<open>_normalize_category_to_order_type\<close> of \<open>order_type_detector.py\<close>; the argument is
  a string or \<open>None\<close>.\<close>

definition normalize_category_to_order_type :: "string option \<Rightarrow> string" where
  "normalize_category_to_order_type category =
     (case category of
        None \<Rightarrow> ''unspecified''
      | Some c \<Rightarrow>
          if c = [] then ''unspecified''
          else (let category_lower = strip (lower c)
                in if category_lower = ''labour'' then ''labour''
                   else if contains ''tyre'' category_lower \<or> contains ''service'' category_lower
                        then ''service''
                   else ''labour''))"

text \<open>A row of the \<open>LabourCode\<close> table; \<open>category\<close> is a non-null character field.\<close>

record LabourCode =
  code :: string
  category :: string
  is_active :: bool

text \<open>\<open>[str(code).strip() for code in item_codes if code]\<close> on a list of strings and
  \<open>None\<close>s: the test for emptiness comes before the strip.\<close>

definition clean_codes :: "string option list \<Rightarrow> string list" where
  "clean_codes item_codes =
     concat (map (\<lambda>c. case c of None \<Rightarrow> [] | Some s \<Rightarrow> if s \<noteq> [] then [strip s] else [])
                 item_codes)"

text \<open>\<open>LabourCode.objects.filter(code__in=cleaned_codes, is_active=True)\<close>.\<close>

definition found_codes :: "LabourCode list \<Rightarrow> string list \<Rightarrow> LabourCode list" where
  "found_codes registry cleaned_codes =
     filter (\<lambda>row. code row \<in> set cleaned_codes \<and> is_active row) registry"

record mapping_info =
  mapped :: "string \<rightharpoonup> string"
  unmapped :: "string list"
  categories_found :: "string list"
  order_types_found :: "string list"

definition empty_info :: mapping_info where
  "empty_info = \<lparr>mapped = Map.empty, unmapped = [], categories_found = [], order_types_found = []\<rparr>"

text \<open>\<open>determine_order_type_from_codes\<close>, with the table as an argument. The two Python
  sets are lists without duplicates; \<open>sorted\<close> orders strings lexicographically.\<close>

definition determine_order_type_from_codes ::
    "LabourCode list \<Rightarrow> string option list \<Rightarrow> string \<times> string list \<times> mapping_info" where
  "determine_order_type_from_codes registry item_codes =
     (if item_codes = [] then (''unspecified'', [], empty_info)
      else
        (let cleaned_codes = clean_codes item_codes
         in if cleaned_codes = [] then (''sales'', [], empty_info)
            else
              (let rows = found_codes registry cleaned_codes;
                   code_to_category = fold (\<lambda>row m. m(code row \<mapsto> category row)) rows Map.empty;
                   found_code_set = map code rows;
                   unmapped_codes = filter (\<lambda>c. c \<notin> set found_code_set) cleaned_codes;
                   has_unmapped = (length unmapped_codes > 0);
                   mapped_categories = remdups (map category rows);
                   types = remdups (map (\<lambda>c. normalize_category_to_order_type (Some c))
                                        mapped_categories
                                    @ (if has_unmapped then [''sales''] else []));
                   categories = remdups (mapped_categories
                                         @ (if has_unmapped then [''sales''] else []));
                   final_order_type =
                     (if length types = 0 then ''sales''
                      else if length types = 1 then hd types
                      else ''mixed'');
                   final_categories =
                     (if length types = 0 then [''sales''] else sort categories)
               in (final_order_type, final_categories,
                   \<lparr>mapped = code_to_category, unmapped = unmapped_codes,
                    categories_found = final_categories,
                    order_types_found = sort types\<rparr>))))"

section \<open>Classification of the aggregated line items\<close>

text \<open>\<open>_get_item_code_categories\<close> of \<open>views_invoice_upload.py\<close>: for every cleaned code
  the triple of category, order type and badge class.\<close>

record code_info =
  ci_category :: string
  ci_order_type :: string
  ci_color_class :: string

definition color_class :: "string \<Rightarrow> string" where
  "color_class order_type =
     (case map_of [(''labour'', ''badge-labour''), (''service'', ''badge-service''),
                   (''sales'', ''badge-sales'')] order_type of
        None \<Rightarrow> ''badge-secondary'' | Some c \<Rightarrow> c)"

definition get_item_code_categories ::
    "LabourCode list \<Rightarrow> string option list \<Rightarrow> (string \<rightharpoonup> code_info)" where
  "get_item_code_categories registry item_codes =
     (if item_codes = [] then Map.empty
      else
        (let cleaned_codes = clean_codes item_codes
         in if cleaned_codes = [] then Map.empty
            else
              (let rows = found_codes registry cleaned_codes;
                   result = fold (\<lambda>row m.
                              (let order_type = normalize_category_to_order_type (Some (category row))
                               in m(code row \<mapsto> \<lparr>ci_category = category row,
                                                  ci_order_type = order_type,
                                                  ci_color_class = color_class order_type\<rparr>)))
                              rows Map.empty
               in fold (\<lambda>c m. if c \<notin> set (map code rows)
                               then m(c \<mapsto> \<lparr>ci_category = ''Sales'', ci_order_type = ''sales'',
                                            ci_color_class = ''badge-sales''\<rparr>)
                               else m)
                       cleaned_codes result)))"

text \<open>A line item. The numbers of an object built by the upload view are decimals; the
  numbers of a row read back by the revenue report come from fixed-point columns and are
  finite, so the type of the numbers is a parameter. \<open>order_type\<close> and \<open>tax_amount\<close>
  may be read as \<open>None\<close> by the report, so they are optional.\<close>

record 'n InvoiceLineItem =
  li_invoice :: nat
  li_code :: "string option"
  li_description :: string
  li_quantity :: 'n
  li_unit :: "string option"
  li_unit_price :: 'n
  li_tax_rate :: 'n
  li_line_total :: 'n
  li_tax_amount :: "'n option"
  li_order_type :: "string option"

text \<open>The codes of the aggregated entries, \<open>[it.get('code') for it in aggregated if
  it.get('code')]\<close>. The aggregator writes \<open>None\<close> or a non-empty string there.\<close>

definition aggregated_codes :: "pydict list \<Rightarrow> string option list" where
  "aggregated_codes aggregated =
     concat (map (\<lambda>it. case get it ''code'' of
                          PStr s \<Rightarrow> if s \<noteq> [] then [Some s] else []
                        | _ \<Rightarrow> []) aggregated)"

definition str_or_none :: "pyval \<Rightarrow> string option" where
  "str_or_none v = (case v of PStr s \<Rightarrow> if s \<noteq> [] then Some s else None | _ \<Rightarrow> None)"

text \<open>One turn of the loop that builds \<open>to_create\<close> in \<open>api_upload_extract_invoice\<close>.\<close>

definition make_line_item ::
    "nat \<Rightarrow> (string \<rightharpoonup> code_info) \<Rightarrow> pydict \<Rightarrow> error + dec InvoiceLineItem" where
  "make_line_item inv_id code_order_types it =
     (case to_decimal (py_or (get it ''qty'') (PStr ''1'')) of
        None \<Rightarrow> Inl InvalidOperation
      | Some qty \<Rightarrow>
     (case to_decimal (py_or (get it ''unit_price'') (PStr ''0'')) of
        None \<Rightarrow> Inl InvalidOperation
      | Some price \<Rightarrow>
     (case dmul qty price of
        Inl e \<Rightarrow> Inl e
      | Inr line_total \<Rightarrow>
          (let c = str_or_none (get it ''code'');
               order_type =
                 (case c of
                    None \<Rightarrow> ''unspecified''
                  | Some s \<Rightarrow>
                      (case code_order_types s of
                         None \<Rightarrow> ''unspecified''
                       | Some info \<Rightarrow> ci_order_type info))
           in Inr \<lparr>li_invoice = inv_id, li_code = c,
                   li_description =
                     (case py_or (get it ''description'') (PStr ''Item'') of
                        PStr d \<Rightarrow> d | _ \<Rightarrow> ''Item''),
                   li_quantity = qty, li_unit = str_or_none (get it ''unit''),
                   li_unit_price = price, li_tax_rate = Fin 0, li_line_total = line_total,
                   li_tax_amount = Some (Fin 0), li_order_type = Some order_type\<rparr>))))"

fun make_line_items ::
    "nat \<Rightarrow> (string \<rightharpoonup> code_info) \<Rightarrow> pydict list \<Rightarrow> error + dec InvoiceLineItem list" where
  "make_line_items inv_id m [] = Inr []"
| "make_line_items inv_id m (it # its) =
     (case make_line_item inv_id m it of
        Inl e \<Rightarrow> Inl e
      | Inr li \<Rightarrow>
          (case make_line_items inv_id m its of
             Inl e \<Rightarrow> Inl e
           | Inr lis \<Rightarrow> Inr (li # lis)))"

text \<open>Lines 545 to 588 of \<open>views_invoice.py\<close>: aggregate, look the codes up, build the
  line items. The invoice-level type is what the detector returns on the same codes.\<close>

definition classify_extracted ::
    "LabourCode list \<Rightarrow> nat \<Rightarrow> pydict list \<Rightarrow> error + dec InvoiceLineItem list" where
  "classify_extracted registry inv_id items_list =
     (case (if items_list \<noteq> [] then aggregate_items items_list else Inr []) of
        Inl e \<Rightarrow> Inl e
      | Inr aggregated \<Rightarrow>
          make_line_items inv_id
            (get_item_code_categories registry (aggregated_codes aggregated)) aggregated)"

definition invoice_order_type ::
    "LabourCode list \<Rightarrow> pydict list \<Rightarrow> error + string \<times> string list \<times> mapping_info" where
  "invoice_order_type registry items_list =
     (case (if items_list \<noteq> [] then aggregate_items items_list else Inr []) of
        Inl e \<Rightarrow> Inl e
      | Inr aggregated \<Rightarrow>
          Inr (determine_order_type_from_codes registry (aggregated_codes aggregated)))"

section \<open>Revenue by order type\<close>

text \<open>\<open>get_revenue_by_order_type\<close> of \<open>revenue_utils.py\<close>, from the list of invoice ids
  on: the result dictionary has the six keys \<open>sales\<close>, \<open>service\<close>, \<open>labour\<close>,
  \<open>unknown\<close>, \<open>total\<close> and \<open>count\<close>. The line items are rows of the table: their
  amounts are fixed-point numbers of at most twelve digits, far from the 28 digits where
  a sum would be rounded.\<close>

type_synonym revenue = "string \<rightharpoonup> rat"

definition initial_revenue :: "nat \<Rightarrow> revenue" where
  "initial_revenue n =
     [''sales'' \<mapsto> 0, ''service'' \<mapsto> 0, ''labour'' \<mapsto> 0, ''unknown'' \<mapsto> 0,
      ''total'' \<mapsto> 0, ''count'' \<mapsto> of_nat n]"

definition item_order_type :: "rat InvoiceLineItem \<Rightarrow> string" where
  "item_order_type item =
     (case li_order_type item of
        None \<Rightarrow> ''unknown''
      | Some t \<Rightarrow> if t \<noteq> [] then t else ''unknown'')"

definition line_value :: "rat InvoiceLineItem \<Rightarrow> rat" where
  "line_value item =
     (case li_tax_amount item of
        None \<Rightarrow> li_line_total item
      | Some t \<Rightarrow> if t \<noteq> 0 then li_line_total item + t else li_line_total item)"

definition add_item :: "rat InvoiceLineItem \<Rightarrow> revenue \<Rightarrow> revenue" where
  "add_item item result =
     (let order_type = item_order_type item
      in case result order_type of
           Some r \<Rightarrow> result(order_type \<mapsto> r + line_value item)
         | None \<Rightarrow> result(''unknown'' \<mapsto> the (result ''unknown'') + line_value item))"

definition set_total :: "revenue \<Rightarrow> revenue" where
  "set_total result =
     result(''total'' \<mapsto> the (result ''sales'') + the (result ''service'')
                          + the (result ''labour'') + the (result ''unknown''))"

definition get_revenue_by_order_type :: "nat list \<Rightarrow> rat InvoiceLineItem list \<Rightarrow> revenue" where
  "get_revenue_by_order_type invoice_ids all_line_items =
     (if invoice_ids = [] then initial_revenue 0
      else
        (let line_items = filter (\<lambda>item. li_invoice item \<in> set invoice_ids) all_line_items
         in set_total (fold add_item line_items (initial_revenue (length invoice_ids)))))"

section \<open>Notions used to state the properties\<close>

text \<open>All items of a list as the loop body reads them, or the first error.\<close>

fun parse_all :: "pydict list \<Rightarrow> error + parsed list" where
  "parse_all [] = Inr []"
| "parse_all (it # its) =
     (case parse_item it of
        Inl e \<Rightarrow> Inl e
      | Inr p \<Rightarrow> (case parse_all its of Inl e \<Rightarrow> Inl e | Inr ps \<Rightarrow> Inr (p # ps)))"

text \<open>The turns of the first loop on items already read, and the accumulating statements
  for the items of one group.\<close>

fun update_all :: "bucket \<Rightarrow> parsed list \<Rightarrow> error + bucket" where
  "update_all b [] = Inr b"
| "update_all b (p # ps) =
     (case update_bucket b p of Inl e \<Rightarrow> Inl e | Inr b' \<Rightarrow> update_all b' ps)"

fun accumulate_all :: "group \<Rightarrow> parsed list \<Rightarrow> error + group" where
  "accumulate_all g [] = Inr g"
| "accumulate_all g (p # ps) =
     (case accumulate p g of Inl e \<Rightarrow> Inl e | Inr g' \<Rightarrow> accumulate_all g' ps)"

definition parsed_of :: "pydict list \<Rightarrow> parsed list" where
  "parsed_of items_list = (case parse_all items_list of Inl e \<Rightarrow> [] | Inr ps \<Rightarrow> ps)"

text \<open>The items of one group, in input order, and what the first loop collects for the
  group of key \<open>k\<close>: the running sum of the quantities, the rates and the values.\<close>

definition members :: "string \<Rightarrow> parsed list \<Rightarrow> parsed list" where
  "members k ps = filter (\<lambda>p. p_key p = k) ps"

definition group_qty :: "string \<Rightarrow> parsed list \<Rightarrow> error + dec" where
  "group_qty k ps = dsum (map p_qty (members k ps))"

definition group_rates :: "string \<Rightarrow> parsed list \<Rightarrow> dec list" where
  "group_rates k ps = concat (map (\<lambda>p. nonzero (p_rate p)) (members k ps))"

definition group_values :: "string \<Rightarrow> parsed list \<Rightarrow> dec list" where
  "group_values k ps = concat (map (\<lambda>p. nonzero (p_value p)) (members k ps))"

text \<open>A number above zero, and the quantity of an output entry for a running sum.\<close>

definition positive :: "dec \<Rightarrow> bool" where
  "positive d = (case d of Fin x \<Rightarrow> 0 < x | Infty s \<Rightarrow> \<not> s | NaN \<Rightarrow> False | SNaN \<Rightarrow> False)"

definition clamp_qty :: "dec \<Rightarrow> dec" where
  "clamp_qty q = (if positive q then q else Fin 1)"

text \<open>The rule of the unit price: the mean of the rates when there is one, else the sum of
  the values divided by the final quantity when there is one, else 0, in the arithmetic
  of the context.\<close>

definition dmean :: "dec list \<Rightarrow> error + dec" where
  "dmean rs = (case dsum rs of Inl e \<Rightarrow> Inl e | Inr s \<Rightarrow> ddiv s (Fin (of_nat (length rs))))"

definition price_rule :: "dec list \<Rightarrow> dec list \<Rightarrow> dec \<Rightarrow> error + dec" where
  "price_rule rates vals fq =
     (if rates \<noteq> [] then dmean rates
      else if vals \<noteq> [] then (case dsum vals of Inl e \<Rightarrow> Inl e | Inr t \<Rightarrow> ddiv t fq)
      else Inr (Fin 0))"




text \<open>One field of every output entry.\<close>

definition fields :: "string \<Rightarrow> error + pydict list \<Rightarrow> error + pyval list" where
  "fields k r = (case r of Inl e \<Rightarrow> Inl e | Inr out \<Rightarrow> Inr (map (\<lambda>e. get e k) out))"

text \<open>Order type and line total of every line item, and the type and categories of a
  detector result.\<close>

definition line_types :: "error + dec InvoiceLineItem list \<Rightarrow> (string option \<times> dec) list" where
  "line_types r =
     (case r of Inl e \<Rightarrow> [] | Inr ls \<Rightarrow> map (\<lambda>l. (li_order_type l, li_line_total l)) ls)"

definition detected ::
    "error + string \<times> string list \<times> mapping_info \<Rightarrow> (string \<times> string list) option" where
  "detected r = (case r of Inl e \<Rightarrow> None | Inr (t, cs, i) \<Rightarrow> Some (t, cs))"

text \<open>The end-to-end scenario of the specification.\<close>

definition scenario_items :: "pydict list" where
  "scenario_items =
     [[''code'' \<mapsto> PStr ''L100'', ''description'' \<mapsto> PStr ''Oil filter replace'',
       ''qty'' \<mapsto> PNum (Fin 1), ''value'' \<mapsto> PNum (Fin 50000)],
      [''code'' \<mapsto> PNone, ''description'' \<mapsto> PStr ''Tire X'',
       ''qty'' \<mapsto> PNum (Fin 2), ''rate'' \<mapsto> PNum (Fin 75000)]]"

definition scenario_registry :: "LabourCode list" where
  "scenario_registry = [\<lparr>code = ''L100'', category = ''labour'', is_active = True\<rparr>]"

text \<open>The set of distinct order-type tags of an invoice, in the words of the
  specification: the normalized category of every active row found for a cleaned code,
  and \<open>sales\<close> when some cleaned code has no such row.\<close>

definition order_type_tags :: "LabourCode list \<Rightarrow> string option list \<Rightarrow> string set" where
  "order_type_tags registry item_codes =
     (let cleaned = clean_codes item_codes; rows = found_codes registry cleaned
      in (\<lambda>row. normalize_category_to_order_type (Some (category row))) ` set rows
         \<union> (if set cleaned \<subseteq> code ` set rows then {} else {''sales''}))"

text \<open>A line item as the revenue report reads it.\<close>

definition tagged_line :: "string option \<Rightarrow> rat \<Rightarrow> rat InvoiceLineItem" where
  "tagged_line t amount =
     \<lparr>li_invoice = 1, li_code = None, li_description = ''Item'', li_quantity = 1,
      li_unit = None, li_unit_price = amount, li_tax_rate = 0, li_line_total = amount,
      li_tax_amount = Some 0, li_order_type = t\<rparr>"

definition buckets :: "revenue \<Rightarrow> rat option list" where
  "buckets r = map r [''sales'', ''service'', ''labour'', ''unknown'', ''total'', ''count'']"





definition bolt_row :: pydict where
  "bolt_row = [''code'' \<mapsto> PStr ''A'', ''description'' \<mapsto> PStr ''Bolt'',
               ''unit'' \<mapsto> PStr ''PCS'', ''qty'' \<mapsto> PNum (Fin 1), ''rate'' \<mapsto> PNum (Fin 10)]"

definition nut_row :: pydict where
  "nut_row = [''code'' \<mapsto> PStr ''A'', ''description'' \<mapsto> PStr ''Nut'',
              ''unit'' \<mapsto> PStr ''BOX'', ''qty'' \<mapsto> PNum (Fin 2), ''rate'' \<mapsto> PNum (Fin 20)]"

definition rated_items :: "pydict list" where
  "rated_items = [[''code'' \<mapsto> PStr ''A'', ''qty'' \<mapsto> PNum (Fin 1), ''rate'' \<mapsto> PNum (Fin 10)]]"


definition big_qty_items :: "pydict list" where
  "big_qty_items =
     [[''code'' \<mapsto> PStr ''A'', ''qty'' \<mapsto> PStr ''1e28''],
      [''code'' \<mapsto> PStr ''A'', ''qty'' \<mapsto> PNum (Fin 3)],
      [''code'' \<mapsto> PStr ''A'', ''qty'' \<mapsto> PStr ''-1e28'']]"

definition big_qty_items_permuted :: "pydict list" where
  "big_qty_items_permuted =
     [[''code'' \<mapsto> PStr ''A'', ''qty'' \<mapsto> PStr ''1e28''],
      [''code'' \<mapsto> PStr ''A'', ''qty'' \<mapsto> PStr ''-1e28''],
      [''code'' \<mapsto> PStr ''A'', ''qty'' \<mapsto> PNum (Fin 3)]]"



text \<open>A row without code and without description, and three invoices with such rows:
  quantities 2 and 3; quantities 3 and -5; quantity 2 beside a row described as \<open>ITEM\<close>
  with quantity 7.\<close>

definition blank_row :: "pydict \<Rightarrow> bool" where
  "blank_row it =
     (\<not> truthy (get it ''item_code'') \<and> \<not> truthy (get it ''code'')
      \<and> \<not> truthy (get it ''description''))"

definition blank_items :: "pydict list" where
  "blank_items =
     [[''qty'' \<mapsto> PNum (Fin 2)],
      [''description'' \<mapsto> PStr [], ''code'' \<mapsto> PNone, ''qty'' \<mapsto> PNum (Fin 3)]]"

definition blank_neg_items :: "pydict list" where
  "blank_neg_items = [[''qty'' \<mapsto> PNum (Fin 3)], [''qty'' \<mapsto> PNum (Fin (- 5))]]"

definition blank_and_named_items :: "pydict list" where
  "blank_and_named_items =
     [[''qty'' \<mapsto> PNum (Fin 2)],
      [''description'' \<mapsto> PStr ''ITEM'', ''qty'' \<mapsto> PNum (Fin 7)]]"

text \<open>A table whose only row has an empty category.\<close>

definition blank_category_registry :: "LabourCode list" where
  "blank_category_registry = [\<lparr>code = ''X'', category = [], is_active = True\<rparr>]"

text \<open>Amounts on which no sum is rounded: finite numbers with at most six decimal places
  whose absolute values add up to less than \<open>10 ^ 21\<close>.\<close>

definition six_places :: "dec \<Rightarrow> bool" where
  "six_places d = (case d of Fin x \<Rightarrow> of_int \<lfloor>x * 10 ^ 6\<rfloor> = x * 10 ^ 6 | _ \<Rightarrow> False)"

definition magnitude :: "dec \<Rightarrow> rat" where
  "magnitude d = (case d of Fin x \<Rightarrow> \<bar>x\<bar> | _ \<Rightarrow> 0)"

definition small_amounts :: "dec list \<Rightarrow> bool" where
  "small_amounts xs = (list_all six_places xs \<and> sum_list (map magnitude xs) < 10 ^ 21)"

definition small_items :: "parsed list \<Rightarrow> bool" where
  "small_items ps =
     (small_amounts (map p_qty ps)
      \<and> small_amounts (concat (map (\<lambda>p. nonzero (p_rate p)) ps))
      \<and> small_amounts (concat (map (\<lambda>p. nonzero (p_value p)) ps)))"

text \<open>Aggregating the output of the aggregator once more.\<close>

definition aggregate_twice :: "pydict list \<Rightarrow> error + pydict list" where
  "aggregate_twice items_list =
     (case aggregate_items items_list of Inl e \<Rightarrow> Inl e | Inr out \<Rightarrow> aggregate_items out)"

text \<open>What the strings of an item and of a group look like after the loop has read them:
  they are stripped, the key is the code or else the normalized description, and a unit
  that is present is not empty. The quantity of a group is a result of the context, which
  adding zero leaves as it is.\<close>

definition stripped_unit :: "string option \<Rightarrow> bool" where
  "stripped_unit u = (case u of None \<Rightarrow> True | Some s \<Rightarrow> s \<noteq> [] \<and> strip s = s)"

definition read_item :: "parsed \<Rightarrow> bool" where
  "read_item p =
     (strip (p_code p) = p_code p \<and> strip (p_desc p) = p_desc p
      \<and> p_key p = item_key (p_code p) (p_desc p) \<and> stripped_unit (p_unit p))"

definition settled :: "dec \<Rightarrow> bool" where
  "settled d = (dadd (Fin 0) d = Inr d)"

definition read_group :: "string \<Rightarrow> group \<Rightarrow> bool" where
  "read_group k g =
     (strip (g_description g) = g_description g
      \<and> (case g_code g of
            PStr c \<Rightarrow> c \<noteq> [] \<and> strip c = c \<and> k = c
          | PNone \<Rightarrow> k = item_key [] (g_description g)
          | PNum r \<Rightarrow> False)
      \<and> stripped_unit (g_unit g))"

text \<open>What the loop reads from the output entry of a group whose final quantity is
  \<open>fq\<close>.\<close>

definition reparsed :: "string \<Rightarrow> group \<Rightarrow> dec \<Rightarrow> parsed" where
  "reparsed k g fq =
     \<lparr>p_key = k, p_code = (case g_code g of PStr c \<Rightarrow> c | _ \<Rightarrow> []),
      p_desc = g_description g, p_qty = fq, p_unit = g_unit g,
      p_rate = None, p_value = None\<rparr>"

section \<open>Powers of ten and the adjusted exponent\<close>

lemma pow10_powi: "pow10 z = power_int 10 z"
  by (simp add: pow10_def power_int_def field_simps)

lemma pow10_pos: "0 < pow10 z"
  by (simp add: pow10_powi)

lemma pow10_add: "pow10 (a + b) = pow10 a * pow10 b"
  by (simp add: pow10_powi power_int_add)

lemma pow10_diff: "pow10 (a - b) = pow10 a / pow10 b"
  by (simp add: pow10_powi power_int_diff)

lemma pow10_strict_mono: "a < b \<Longrightarrow> pow10 a < pow10 b"
  unfolding pow10_powi by (rule power_int_strict_increasing) simp_all

lemma pow10_mono: "a \<le> b \<Longrightarrow> pow10 a \<le> pow10 b"
  unfolding pow10_powi by (rule power_int_increasing) simp_all

lemma pow10_less_iff: "pow10 a < pow10 b \<longleftrightarrow> a < b"
  using pow10_strict_mono[of a b] pow10_mono[of b a] by (auto simp: not_le[symmetric])

lemma pow10_le_iff: "pow10 a \<le> pow10 b \<longleftrightarrow> a \<le> b"
  using pow10_strict_mono[of b a] pow10_mono[of a b] by (auto simp: not_less[symmetric])

lemma pow10_nat: "pow10 (int n) = 10 ^ n"
  by (simp add: pow10_def)

lemma pow10_28: "pow10 28 = of_int (10 ^ 28)"
  by (simp add: pow10_def)

lemma pow10_1: "pow10 1 = 10"
  by (simp add: pow10_def)

lemma pow10_neg: "pow10 (- int n) = 1 / 10 ^ n"
  by (simp add: pow10_powi power_int_minus field_simps)

lemma pow10_int: "0 \<le> z \<Longrightarrow> pow10 z = of_int (10 ^ nat z)"
  by (simp add: pow10_def)

declare digits10.simps [simp del]

lemma digits10_bounds:
  "1 \<le> n \<Longrightarrow> 10 ^ (digits10 n - 1) \<le> n \<and> n < 10 ^ digits10 n"
proof (induction n rule: digits10.induct)
  case (1 n)
  show ?case
  proof (cases "n < 10")
    case True
    with "1.prems" show ?thesis by (simp add: digits10.simps)
  next
    case False
    then have "1 \<le> n div 10" by simp
    with "1.IH"[OF False] have ih: "10 ^ (digits10 (n div 10) - 1) \<le> n div 10"
      "n div 10 < 10 ^ digits10 (n div 10)"
      by simp_all
    have d: "digits10 n = Suc (digits10 (n div 10))"
      using False by (simp add: digits10.simps)
    have p: "0 < digits10 (n div 10)"
      by (subst digits10.simps) simp
    have "10 ^ digits10 (n div 10) = 10 * (10::int) ^ (digits10 (n div 10) - 1)"
      using p by (cases "digits10 (n div 10)") simp_all
    also have "\<dots> \<le> 10 * (n div 10)"
      using ih(1) by simp
    also have "\<dots> \<le> n"
      by simp
    finally have lo: "10 ^ digits10 (n div 10) \<le> n" .
    have "n < 10 * (n div 10 + 1)"
      by simp
    also have "\<dots> \<le> 10 * 10 ^ digits10 (n div 10)"
      using ih(2) by simp
    finally have hi: "n < 10 * 10 ^ digits10 (n div 10)" .
    from lo hi show ?thesis
      unfolding d by simp
  qed
qed

lemma digits10_pos: "0 < digits10 n"
  by (subst digits10.simps) simp

lemma adjusted_bounds:
  assumes "r \<noteq> 0"
  shows "pow10 (adjusted r) \<le> \<bar>r\<bar>" and "\<bar>r\<bar> < pow10 (adjusted r + 1)"
proof -
  let ?a = "\<bar>r\<bar>"
  have apos: "0 < ?a" using assms by simp
  show "pow10 (adjusted r) \<le> \<bar>r\<bar>"
  proof (cases "1 \<le> ?a")
    case True
    let ?n = "\<lfloor>?a\<rfloor>"
    have n1: "1 \<le> ?n" using True by simp
    have adj: "adjusted r = int (digits10 ?n - 1)"
      using True digits10_pos[of ?n] by (simp add: adjusted_def Let_def)
    have "pow10 (adjusted r) = of_int (10 ^ (digits10 ?n - 1))"
      unfolding adj by (simp add: pow10_nat)
    also have "\<dots> \<le> of_int ?n"
      using digits10_bounds[OF n1] by (simp only: of_int_le_iff)
    also have "\<dots> \<le> ?a"
      by simp
    finally show ?thesis .
  next
    case False
    let ?m = "\<lceil>1 / ?a\<rceil>"
    let ?n = "?m - 1"
    have "1 < 1 / ?a" using False apos by simp
    then have n1: "1 \<le> ?n" by (simp add: less_ceiling_iff)
    have adj: "adjusted r = - int (digits10 ?n)"
      using False by (simp add: adjusted_def Let_def)
    have "1 / ?a \<le> of_int ?m" by simp
    also have "of_int ?m \<le> (of_int (10 ^ digits10 ?n) :: rat)"
      using digits10_bounds[OF n1] by (simp only: of_int_le_iff) simp
    finally have "1 / ?a \<le> 10 ^ digits10 ?n" by simp
    then have "1 / 10 ^ digits10 ?n \<le> ?a"
      using apos by (simp add: field_simps)
    then show ?thesis
      unfolding adj by (simp add: pow10_neg)
  qed
  show "\<bar>r\<bar> < pow10 (adjusted r + 1)"
  proof (cases "1 \<le> ?a")
    case True
    let ?n = "\<lfloor>?a\<rfloor>"
    have n1: "1 \<le> ?n" using True by simp
    have adj: "adjusted r + 1 = int (digits10 ?n)"
      using True by (simp add: adjusted_def Let_def)
    have "?n + 1 \<le> 10 ^ digits10 ?n"
      using digits10_bounds[OF n1] by simp
    then have "(of_int (?n + 1) :: rat) \<le> of_int (10 ^ digits10 ?n)"
      by (simp only: of_int_le_iff)
    moreover have "?a < of_int (?n + 1)"
      using floor_correct[of ?a] by simp
    ultimately have "?a < of_int (10 ^ digits10 ?n)"
      by (rule less_le_trans[rotated])
    then show ?thesis
      unfolding adj by (simp add: pow10_nat)
  next
    case False
    let ?m = "\<lceil>1 / ?a\<rceil>"
    let ?n = "?m - 1"
    have "1 < 1 / ?a" using False apos by simp
    then have n1: "1 \<le> ?n" by (simp add: less_ceiling_iff)
    have adj: "adjusted r + 1 = - int (digits10 ?n - 1)"
      using False digits10_pos[of ?n] by (simp add: adjusted_def Let_def)
    have "(of_int (10 ^ (digits10 ?n - 1)) :: rat) \<le> of_int ?n"
      using digits10_bounds[OF n1] by (simp only: of_int_le_iff)
    also have "of_int ?n < 1 / ?a"
      by (simp add: ceiling_correct)
    finally have "10 ^ (digits10 ?n - 1) < 1 / ?a" by simp
    then have "?a < 1 / 10 ^ (digits10 ?n - 1)"
      using apos by (simp add: field_simps)
    moreover have "pow10 (- int (digits10 ?n - 1)) = 1 / 10 ^ (digits10 ?n - 1)"
      by (rule pow10_neg)
    ultimately show ?thesis
      unfolding adj by simp
  qed
qed

lemma adjusted_less:
  assumes "r \<noteq> 0" and "\<bar>r\<bar> < pow10 b"
  shows "adjusted r < b"
proof -
  have "pow10 (adjusted r) < pow10 b"
    using adjusted_bounds(1)[OF assms(1)] assms(2) by simp
  then show ?thesis by (simp add: pow10_less_iff)
qed

section \<open>Rounding to the context\<close>

lemma round_half_even_int: "round_half_even (of_int z) = z"
  by (simp add: round_half_even_def)

lemma round_half_even_bounds:
  "\<lfloor>x\<rfloor> \<le> round_half_even x \<and> round_half_even x \<le> \<lfloor>x\<rfloor> + 1"
  by (simp add: round_half_even_def Let_def)

lemma round_half_even_abs:
  assumes "\<bar>x\<bar> < of_int N"
  shows "\<bar>round_half_even x\<bar> \<le> N"
proof -
  from assms have "- of_int N < x" and "x < of_int N"
    by (simp_all add: abs_less_iff)
  then have "- N \<le> \<lfloor>x\<rfloor>" and "\<lfloor>x\<rfloor> < N"
    by (simp_all add: le_floor_iff floor_less_iff)
  with round_half_even_bounds[of x] show ?thesis
    by linarith
qed

text \<open>A number with at most 28 digits at a legal exponent is left as it is.\<close>

lemma round_ctx_fixed:
  assumes n: "n \<noteq> 0" "\<bar>n\<bar> < 10 ^ 28" and k: "etiny \<le> k"
    and e: "adjusted (of_int n * pow10 k) \<le> emax"
  shows "round_ctx (of_int n * pow10 k) = Inr (Fin (of_int n * pow10 k))"
proof -
  let ?r = "of_int n * pow10 k :: rat"
  have r0: "?r \<noteq> 0"
    using n(1) pow10_pos[of k] by simp
  have "\<bar>?r\<bar> = of_int \<bar>n\<bar> * pow10 k"
    using pow10_pos[of k] by (simp add: abs_mult)
  also have "\<dots> < of_int (10 ^ 28) * pow10 k"
    using n(2) pow10_pos[of k] by (intro mult_strict_right_mono) (simp_all only: of_int_less_iff)
  also have "\<dots> = pow10 (28 + k)"
    by (simp only: pow10_add pow10_28)
  finally have "adjusted ?r < 28 + k"
    by (rule adjusted_less[OF r0])
  define q where "q = max (adjusted ?r - 27) etiny"
  have qk: "q \<le> k"
    using \<open>adjusted ?r < 28 + k\<close> k by (simp add: q_def)
  have "?r / pow10 q = of_int n * pow10 (k - q)"
    by (simp add: pow10_diff)
  also have "\<dots> = of_int (n * 10 ^ nat (k - q))"
    using qk by (simp add: pow10_int)
  finally have x: "?r / pow10 q = of_int (n * 10 ^ nat (k - q))" .
  have "of_int (round_half_even (?r / pow10 q)) * pow10 q = ?r / pow10 q * pow10 q"
    unfolding x round_half_even_int ..
  also have "\<dots> = ?r"
    using pow10_pos[of q] by simp
  finally have v: "of_int (round_half_even (?r / pow10 q)) * pow10 q = ?r" .
  show ?thesis
    using r0 e unfolding round_ctx_def Let_def q_def[symmetric] v by simp
qed

text \<open>A finite result of the context has at most 28 digits at a legal exponent.\<close>

lemma round_ctx_form:
  assumes "round_ctx r = Inr (Fin v)" and "v \<noteq> 0"
  shows "\<exists>n k. n \<noteq> 0 \<and> \<bar>n\<bar> < 10 ^ 28 \<and> etiny \<le> k \<and> v = of_int n * pow10 k
           \<and> adjusted v \<le> emax"
proof -
  from assms have r0: "r \<noteq> 0"
    by (auto simp: round_ctx_def)
  define q where "q = max (adjusted r - 27) etiny"
  define m where "m = round_half_even (r / pow10 q)"
  from assms r0 have v: "v = of_int m * pow10 q" and e: "adjusted v \<le> emax"
    by (auto simp: round_ctx_def Let_def q_def m_def split: if_splits)
  from v assms(2) have m0: "m \<noteq> 0"
    by auto
  have "\<bar>r / pow10 q\<bar> = \<bar>r\<bar> / pow10 q"
    using pow10_pos[of q] by (simp add: abs_divide)
  also have "\<dots> < pow10 (adjusted r + 1) / pow10 q"
    using adjusted_bounds(2)[OF r0] pow10_pos[of q] by (simp add: divide_strict_right_mono)
  also have "\<dots> = pow10 (adjusted r + 1 - q)"
    by (simp add: pow10_diff)
  also have "\<dots> \<le> pow10 28"
    by (rule pow10_mono) (simp add: q_def)
  also have "\<dots> = of_int (10 ^ 28)"
    by (rule pow10_28)
  finally have "\<bar>m\<bar> \<le> 10 ^ 28"
    unfolding m_def by (rule round_half_even_abs)
  then consider "\<bar>m\<bar> < 10 ^ 28" | "m = 10 ^ 28" | "m = - (10 ^ 28)"
    by linarith
  then show ?thesis
  proof cases
    case 1
    with m0 v e show ?thesis
      by (intro exI[of _ m] exI[of _ q]) (simp add: q_def)
  next
    case 2
    have "v = of_int (10 ^ 27) * pow10 (q + 1)"
      unfolding v 2 by (simp add: pow10_add pow10_1)
    with e show ?thesis
      by (intro exI[of _ "10 ^ 27"] exI[of _ "q + 1"]) (simp add: q_def)
  next
    case 3
    have "v = of_int (- (10 ^ 27)) * pow10 (q + 1)"
      unfolding v 3 by (simp add: pow10_add pow10_1)
    with e show ?thesis
      by (intro exI[of _ "- (10 ^ 27)"] exI[of _ "q + 1"]) (simp add: q_def)
  qed
qed

lemma round_ctx_zero: "round_ctx 0 = Inr (Fin 0)"
  by (simp add: round_ctx_def)

lemma round_ctx_idem:
  assumes "round_ctx r = Inr (Fin v)"
  shows "round_ctx v = Inr (Fin v)"
proof (cases "v = 0")
  case True
  then show ?thesis by (simp add: round_ctx_zero)
next
  case False
  from round_ctx_form[OF assms False] obtain n k where
    "n \<noteq> 0" "\<bar>n\<bar> < 10 ^ 28" "etiny \<le> k" "v = of_int n * pow10 k" "adjusted v \<le> emax"
    by blast
  then show ?thesis
    using round_ctx_fixed[of n k] by simp
qed

lemma round_ctx_result: "round_ctx r = Inr d \<Longrightarrow> \<exists>v. d = Fin v"
  by (auto simp: round_ctx_def Let_def split: if_splits)

text \<open>Amounts with at most six decimal places below \<open>10 ^ 21\<close> are results of the
  context.\<close>

lemma round_ctx_exact:
  assumes "of_int \<lfloor>x * 10 ^ 6\<rfloor> = x * 10 ^ 6" and "\<bar>x\<bar> < 10 ^ 21"
  shows "round_ctx x = Inr (Fin x)"
proof (cases "x = 0")
  case True
  then show ?thesis by (simp add: round_ctx_zero)
next
  case False
  define n where "n = \<lfloor>x * 10 ^ 6\<rfloor>"
  have xn: "x = of_int n * pow10 (- 6)"
    using assms(1) by (simp only: n_def) (simp add: pow10_def)
  have n0: "n \<noteq> 0"
    using False xn by auto
  have nx: "rat_of_int n = x * 10 ^ 6"
    using assms(1) by (simp only: n_def)
  have "rat_of_int \<bar>n\<bar> = \<bar>rat_of_int n\<bar>"
    by simp
  also have "\<dots> = \<bar>x\<bar> * 10 ^ 6"
    unfolding nx by (simp add: abs_mult)
  also have "\<dots> < 10 ^ 21 * 10 ^ 6"
    using assms(2) by simp
  finally have "rat_of_int \<bar>n\<bar> < of_int (10 ^ 27)"
    by simp
  then have "\<bar>n\<bar> < 10 ^ 27"
    by (simp only: of_int_less_iff)
  then have n28: "\<bar>n\<bar> < 10 ^ 28"
    by simp
  have "\<bar>x\<bar> < pow10 21"
    using assms(2) by (simp add: pow10_def)
  then have "adjusted x < 21"
    by (rule adjusted_less[OF False])
  then have e: "adjusted (of_int n * pow10 (- 6)) \<le> emax"
    unfolding xn[symmetric] by (simp add: emax_def)
  show ?thesis
    using round_ctx_fixed[OF n0 n28 _ e] unfolding xn[symmetric] by (simp add: etiny_def)
qed

section \<open>The bucket after the first loop\<close>

lemma fill_bucket_parsed:
  "parse_all its = Inr ps \<Longrightarrow> fill_bucket b its = update_all b ps"
  by (induction its arbitrary: b ps) (auto split: sum.splits)

lemma fill_bucket_Inr:
  "fill_bucket b its = Inr b' \<Longrightarrow> \<exists>ps. parse_all its = Inr ps"
  by (induction its arbitrary: b) (auto split: sum.splits)

lemma map_of_map_upd:
  "map_of (map (\<lambda>(k, v). if k = a then (k, g) else (k, v)) b) k =
     (if k = a then map_option (\<lambda>_. g) (map_of b k) else map_of b k)"
  by (induction b) auto

lemma keys_map_upd:
  "map fst (map (\<lambda>(k, v). if k = a then (k, g) else (k, v)) b) = map fst b"
  by (induction b) auto

text \<open>A turn of the loop that does not raise: the keys and the entries afterwards.\<close>

lemma update_bucket_keys:
  assumes "update_bucket b p = Inr b'"
  shows "map fst b' = (if p_key p \<in> set (map fst b) then map fst b else map fst b @ [p_key p])"
  using assms
  by (auto simp: update_bucket_def Let_def keys_map_upd split: option.splits sum.splits if_splits)

lemma update_bucket_keyset:
  assumes "update_bucket b p = Inr b'"
  shows "fst ` set b' = insert (p_key p) (fst ` set b)"
proof -
  have "set (map fst b') = insert (p_key p) (set (map fst b))"
    unfolding update_bucket_keys[OF assms] by auto
  then show ?thesis by simp
qed

lemma update_bucket_lookup:
  assumes "update_bucket b p = Inr b'"
  shows "\<exists>g'. accumulate p (case map_of b (p_key p) of None \<Rightarrow> new_group p | Some g \<Rightarrow> g) = Inr g'
              \<and> map_of b' = (map_of b)(p_key p \<mapsto> g')"
proof (cases "p_key p \<in> fst ` set b")
  case True
  then obtain g where g: "map_of b (p_key p) = Some g"
    by (metis map_of_eq_None_iff not_Some_eq)
  with True assms obtain g' where a: "accumulate p g = Inr g'"
    and b': "b' = map (\<lambda>(k, v). if k = p_key p then (k, g') else (k, v)) b"
    by (auto simp: update_bucket_def split: sum.splits)
  have "map_of b' = (map_of b)(p_key p \<mapsto> g')"
    unfolding b' using g by (auto simp: map_of_map_upd fun_eq_iff)
  with a g show ?thesis by simp
next
  case False
  then have n: "map_of b (p_key p) = None"
    by (simp add: map_of_eq_None_iff)
  let ?b = "b @ [(p_key p, new_group p)]"
  have l: "map_of ?b (p_key p) = Some (new_group p)"
    using n by (simp add: map_add_def)
  with False assms obtain g' where a: "accumulate p (new_group p) = Inr g'"
    and b': "b' = map (\<lambda>(k, v). if k = p_key p then (k, g') else (k, v)) ?b"
    by (auto simp: update_bucket_def split: sum.splits)
  have "map_of b' = (map_of b)(p_key p \<mapsto> g')"
    unfolding b' using n by (auto simp: map_of_map_upd fun_eq_iff map_add_def split: option.splits)
  with a n show ?thesis by simp
qed

lemma update_all_keyset:
  "update_all b ps = Inr b' \<Longrightarrow> fst ` set b' = fst ` set b \<union> p_key ` set ps"
  by (induction ps arbitrary: b) (auto simp: update_bucket_keyset split: sum.splits)

lemma update_all_distinct:
  "update_all b ps = Inr b' \<Longrightarrow> distinct (map fst b) \<Longrightarrow> distinct (map fst b')"
proof (induction ps arbitrary: b)
  case Nil
  then show ?case by simp
next
  case (Cons p ps)
  from Cons.prems(1) obtain b1 where b1: "update_bucket b p = Inr b1" "update_all b1 ps = Inr b'"
    by (auto split: sum.splits)
  have "distinct (map fst b1)"
    unfolding update_bucket_keys[OF b1(1)] using Cons.prems(2) by simp
  with Cons.IH[OF b1(2)] show ?case .
qed

text \<open>The entry of a key after the loop: the group of its first item, accumulated over
  its items in input order.\<close>

lemma update_all_lookup:
  assumes "update_all b ps = Inr b'"
  shows "case members k ps of
           [] \<Rightarrow> map_of b' k = map_of b k
         | p0 # rest \<Rightarrow>
             \<exists>g'. accumulate_all (case map_of b k of None \<Rightarrow> new_group p0 | Some g \<Rightarrow> g)
                     (p0 # rest) = Inr g'
                  \<and> map_of b' k = Some g'"
  using assms
proof (induction ps arbitrary: b)
  case Nil
  then show ?case by (simp add: members_def)
next
  case (Cons p ps)
  from Cons.prems obtain b1 where b1: "update_bucket b p = Inr b1" "update_all b1 ps = Inr b'"
    by (auto split: sum.splits)
  from update_bucket_lookup[OF b1(1)] obtain g1 where
    a: "accumulate p (case map_of b (p_key p) of None \<Rightarrow> new_group p | Some g \<Rightarrow> g) = Inr g1"
    and m: "map_of b1 = (map_of b)(p_key p \<mapsto> g1)"
    by blast
  note ih = Cons.IH[OF b1(2)]
  show ?case
  proof (cases "p_key p = k")
    case True
    have mk: "map_of b1 k = Some g1"
      using m True by simp
    show ?thesis
    proof (cases "members k ps")
      case Nil
      with ih have "map_of b' k = Some g1"
        using mk by simp
      with True Nil a show ?thesis
        by (simp add: members_def)
    next
      case (Cons q qs)
      with ih mk obtain g' where "accumulate_all g1 (q # qs) = Inr g'" "map_of b' k = Some g'"
        by auto
      with True Cons a show ?thesis
        by (simp add: members_def)
    qed
  next
    case False
    then have "map_of b1 k = map_of b k"
      using m by simp
    with ih False show ?thesis
      by (auto simp: members_def split: list.splits)
  qed
qed

lemma accumulate_fields:
  assumes "accumulate p g = Inr g'"
  shows "dadd (g_qty g) (p_qty p) = Inr (g_qty g')"
    and "g_rates g' = g_rates g @ nonzero (p_rate p)"
    and "g_values g' = g_values g @ nonzero (p_value p)"
    and "g_code g' = g_code g"
    and "g_description g' = g_description g"
    and "g_unit g' = (if p_unit p \<noteq> None \<and> g_unit g = None then p_unit p else g_unit g)"
  using assms by (auto simp: accumulate_def split: sum.splits)

lemma accumulate_all_fields:
  assumes "accumulate_all g ps = Inr g'"
  shows "dsum_from (g_qty g) (map p_qty ps) = Inr (g_qty g')"
    and "g_rates g' = g_rates g @ concat (map (\<lambda>p. nonzero (p_rate p)) ps)"
    and "g_values g' = g_values g @ concat (map (\<lambda>p. nonzero (p_value p)) ps)"
    and "g_code g' = g_code g"
    and "g_description g' = g_description g"
  using assms
proof (induction ps arbitrary: g)
  case Nil
  {
    case 1 then show ?case by simp
  next
    case 2 then show ?case by simp
  next
    case 3 then show ?case by simp
  next
    case 4 then show ?case by simp
  next
    case 5 then show ?case by simp
  }
next
  case (Cons p ps)
  {
    case 1
    then obtain g1 where g1: "accumulate p g = Inr g1" "accumulate_all g1 ps = Inr g'"
      by (auto split: sum.splits)
    with Cons.IH(1)[OF g1(2)] accumulate_fields(1)[OF g1(1)] show ?case by simp
  next
    case 2
    then obtain g1 where g1: "accumulate p g = Inr g1" "accumulate_all g1 ps = Inr g'"
      by (auto split: sum.splits)
    with Cons.IH(2)[OF g1(2)] accumulate_fields(2)[OF g1(1)] show ?case by simp
  next
    case 3
    then obtain g1 where g1: "accumulate p g = Inr g1" "accumulate_all g1 ps = Inr g'"
      by (auto split: sum.splits)
    with Cons.IH(3)[OF g1(2)] accumulate_fields(3)[OF g1(1)] show ?case by simp
  next
    case 4
    then obtain g1 where g1: "accumulate p g = Inr g1" "accumulate_all g1 ps = Inr g'"
      by (auto split: sum.splits)
    with Cons.IH(4)[OF g1(2)] accumulate_fields(4)[OF g1(1)] show ?case by simp
  next
    case 5
    then obtain g1 where g1: "accumulate p g = Inr g1" "accumulate_all g1 ps = Inr g'"
      by (auto split: sum.splits)
    with Cons.IH(5)[OF g1(2)] accumulate_fields(5)[OF g1(1)] show ?case by simp
  }
qed

section \<open>The output of the second loop\<close>

lemma dgt0_positive: "dgt0 d = Inr b \<Longrightarrow> b = positive d"
  by (cases d) (auto simp: positive_def)

lemma positive_dgt0: "positive d \<Longrightarrow> dgt0 d = Inr True"
  by (cases d) (auto simp: positive_def)

lemma positive_clamp: "positive (clamp_qty q)"
  by (simp add: clamp_qty_def positive_def)

lemma final_qty_clamp: "final_qty g = Inr fq \<Longrightarrow> fq = clamp_qty (g_qty g)"
  by (auto simp: final_qty_def clamp_qty_def dest: dgt0_positive split: sum.splits)

lemma unit_price_rule:
  "positive fq \<Longrightarrow> unit_price g fq = price_rule (g_rates g) (g_values g) fq"
  by (simp add: unit_price_def price_rule_def dmean_def positive_dgt0 split: sum.splits)

lemma out_item_Inr:
  assumes "out_item g = Inr e"
  shows "\<exists>up. price_rule (g_rates g) (g_values g) (clamp_qty (g_qty g)) = Inr up
           \<and> final_qty g = Inr (clamp_qty (g_qty g))
           \<and> e = [''code'' \<mapsto> g_code g,
                  ''description'' \<mapsto> PStr (g_description g),
                  ''qty'' \<mapsto> PNum (clamp_qty (g_qty g)),
                  ''unit'' \<mapsto> (case g_unit g of None \<Rightarrow> PNone | Some u \<Rightarrow> PStr u),
                  ''unit_price'' \<mapsto> PNum up]"
proof -
  from assms obtain fq up where f: "final_qty g = Inr fq" and u: "unit_price g fq = Inr up"
    and e: "e = [''code'' \<mapsto> g_code g,
                  ''description'' \<mapsto> PStr (g_description g),
                  ''qty'' \<mapsto> PNum fq,
                  ''unit'' \<mapsto> (case g_unit g of None \<Rightarrow> PNone | Some u \<Rightarrow> PStr u),
                  ''unit_price'' \<mapsto> PNum up]"
    by (auto simp: out_item_def split: sum.splits)
  have fq: "fq = clamp_qty (g_qty g)"
    using f by (rule final_qty_clamp)
  with u have "price_rule (g_rates g) (g_values g) (clamp_qty (g_qty g)) = Inr up"
    by (simp add: unit_price_rule positive_clamp)
  with f e fq show ?thesis by blast
qed

lemma out_item_get:
  assumes "out_item g = Inr e"
  shows "get e ''qty'' = PNum (clamp_qty (g_qty g))"
    and "\<exists>up. price_rule (g_rates g) (g_values g) (clamp_qty (g_qty g)) = Inr up
           \<and> get e ''unit_price'' = PNum up"
    and "get e ''code'' = g_code g"
    and "get e ''description'' = PStr (g_description g)"
  using out_item_Inr[OF assms] by (auto simp: get_def)



lemma finish_bucket_group:
  "finish_bucket b = Inr kout \<Longrightarrow> (k, g) \<in> set b \<Longrightarrow> \<exists>e. (k, e) \<in> set kout \<and> out_item g = Inr e"
proof (induction b arbitrary: kout)
  case Nil
  then show ?case by simp
next
  case (Cons a b)
  obtain k0 v where a: "a = (k0, v)" by (cases a)
  from Cons.prems(1) a obtain d r where
    r: "out_item v = Inr d" "finish_bucket b = Inr r" "kout = (k0, d) # r"
    by (auto split: sum.splits)
  from Cons.prems(2) a consider "k = k0" "g = v" | "(k, g) \<in> set b"
    by auto
  then show ?case
  proof cases
    case 1
    with r(1,3) show ?thesis by auto
  next
    case 2
    from Cons.IH[OF r(2) 2] r(3) show ?thesis by auto
  qed
qed

text \<open>Every entry of the final bucket holds what its group has collected.\<close>

lemma bucket_entry:
  assumes "update_all [] ps = Inr b" and "(k, g) \<in> set b"
  shows "members k ps \<noteq> []"
    and "group_qty k ps = Inr (g_qty g)"
    and "g_rates g = group_rates k ps"
    and "g_values g = group_values k ps"
    and "g_code g = g_code (new_group (hd (members k ps)))"
    and "g_description g = p_desc (hd (members k ps))"
proof -
  have d: "distinct (map fst b)"
    using update_all_distinct[OF assms(1)] by simp
  with assms(2) have m: "map_of b k = Some g"
    by simp
  from assms(2) have "k \<in> fst ` set b"
    by force
  then have "k \<in> p_key ` set ps"
    using update_all_keyset[OF assms(1)] by simp
  then show ne: "members k ps \<noteq> []"
    by (auto simp: members_def filter_empty_conv)
  then obtain p0 rest where sel: "members k ps = p0 # rest"
    by (cases "members k ps") auto
  with m update_all_lookup[OF assms(1), of k]
  have g: "accumulate_all (new_group p0) (p0 # rest) = Inr g"
    by auto
  note f = accumulate_all_fields[OF g]
  show "group_qty k ps = Inr (g_qty g)"
    using f(1) by (simp add: group_qty_def dsum_def sel new_group_def)
  show "g_rates g = group_rates k ps"
    using f(2) by (simp add: group_rates_def sel new_group_def)
  show "g_values g = group_values k ps"
    using f(3) by (simp add: group_values_def sel new_group_def)
  show "g_code g = g_code (new_group (hd (members k ps)))"
    using f(4) by (simp add: sel)
  show "g_description g = p_desc (hd (members k ps))"
    using f(5) by (simp add: sel new_group_def)
qed

text \<open>When the aggregator returns, every item has been read, the keys of the output are
  the keys of the items, each once, and every entry is the output of a group that holds
  what the items of its key have given.\<close>

lemma aggregate_keyed_Inr:
  assumes "aggregate_keyed items_list = Inr kout"
  shows "\<exists>b. parse_all items_list = Inr (parsed_of items_list)
            \<and> update_all [] (parsed_of items_list) = Inr b
            \<and> finish_bucket b = Inr kout"
proof -
  from assms obtain b where b: "fill_bucket [] items_list = Inr b" "finish_bucket b = Inr kout"
    by (auto simp: aggregate_keyed_def split: sum.splits)
  from fill_bucket_Inr[OF b(1)] obtain ps where ps: "parse_all items_list = Inr ps"
    by blast
  then have "parsed_of items_list = ps"
    by (simp add: parsed_of_def)
  with ps b fill_bucket_parsed[OF ps, of "[]"] show ?thesis
    by auto
qed



section \<open>Substring test\<close>

lemma starts_with_iff: "starts_with n s \<longleftrightarrow> (\<exists>b. s = n @ b)"
  by (induction n s rule: starts_with.induct) auto

lemma contains_iff: "contains n s \<longleftrightarrow> (\<exists>a b. s = a @ n @ b)"
proof (induction s)
  case Nil
  then show ?case by auto
next
  case (Cons c cs)
  show ?case
  proof
    assume "contains n (c # cs)"
    then consider "starts_with n (c # cs)" | "contains n cs" by auto
    then show "\<exists>a b. c # cs = a @ n @ b"
    proof cases
      case 1
      then obtain b where "c # cs = n @ b" by (auto simp: starts_with_iff)
      then have "c # cs = [] @ n @ b" by simp
      then show ?thesis by blast
    next
      case 2
      then obtain a b where "cs = a @ n @ b" using Cons.IH by auto
      then have "c # cs = (c # a) @ n @ b" by simp
      then show ?thesis by blast
    qed
  next
    assume "\<exists>a b. c # cs = a @ n @ b"
    then obtain a b where ab: "c # cs = a @ n @ b" by auto
    show "contains n (c # cs)"
    proof (cases a)
      case Nil
      with ab have "starts_with n (c # cs)" by (auto simp: starts_with_iff)
      then show ?thesis by simp
    next
      case (Cons x xs)
      with ab have "cs = xs @ n @ b" by simp
      then have "contains n cs" using Cons.IH by blast
      then show ?thesis by simp
    qed
  qed
qed

section \<open>Properties of the category normalizer\<close>

text \<open>
  Claim C5. The normalizer is total on strings and \<open>None\<close> and returns one of \<open>labour\<close>,
  \<open>service\<close> and \<open>unspecified\<close>: \<open>None\<close> and the empty string give \<open>unspecified\<close>;
  a non-empty string, lower-cased and stripped, gives \<open>labour\<close> when it is exactly
  \<open>labour\<close>, otherwise \<open>service\<close> when \<open>tyre\<close> or \<open>service\<close> occurs in it, and
  \<open>labour\<close> in every other case, as for \<open>Brake Pads\<close>.
\<close>

theorem normalizer_total:
  "normalize_category_to_order_type c \<in> {''labour'', ''service'', ''unspecified''}
   \<and> normalize_category_to_order_type None = ''unspecified''
   \<and> normalize_category_to_order_type (Some []) = ''unspecified''
   \<and> normalize_category_to_order_type (Some (x # xs)) =
       (if strip (lower (x # xs)) = ''labour'' then ''labour''
        else if (\<exists>a b. strip (lower (x # xs)) = a @ ''tyre'' @ b)
                \<or> (\<exists>a b. strip (lower (x # xs)) = a @ ''service'' @ b) then ''service''
        else ''labour'')
   \<and> normalize_category_to_order_type (Some ''LABOUR'') = ''labour''
   \<and> normalize_category_to_order_type (Some ''Tyre Service'') = ''service''
   \<and> normalize_category_to_order_type (Some ''Brake Pads'') = ''labour''"
proof -
  have range: "normalize_category_to_order_type c \<in> {''labour'', ''service'', ''unspecified''}"
    by (simp add: normalize_category_to_order_type_def Let_def split: option.splits)
  have rule: "normalize_category_to_order_type (Some (x # xs)) =
       (if strip (lower (x # xs)) = ''labour'' then ''labour''
        else if (\<exists>a b. strip (lower (x # xs)) = a @ ''tyre'' @ b)
                \<or> (\<exists>a b. strip (lower (x # xs)) = a @ ''service'' @ b) then ''service''
        else ''labour'')"
    unfolding contains_iff[symmetric]
    by (simp add: normalize_category_to_order_type_def Let_def)
  have e0: "normalize_category_to_order_type None = ''unspecified''"
    "normalize_category_to_order_type (Some []) = ''unspecified''"
    by (simp_all add: normalize_category_to_order_type_def)
  have e1: "normalize_category_to_order_type (Some ''LABOUR'') = ''labour''" by code_simp
  have e2: "normalize_category_to_order_type (Some ''Tyre Service'') = ''service''" by code_simp
  have e3: "normalize_category_to_order_type (Some ''Brake Pads'') = ''labour''" by code_simp
  from range rule e0 e1 e2 e3 show ?thesis by blast
qed

section \<open>The end-to-end scenario\<close>

text \<open>
  Claim C1 as the specification states it: on the scenario the two line items are typed
  \<open>labour\<close> and \<open>sales\<close> and the invoice is \<open>mixed\<close> with categories \<open>labour\<close> and
  \<open>sales\<close>. The code does not do that.
\<close>

theorem end_to_end_scenario_counterexample:
  "\<not> (line_types (classify_extracted scenario_registry 1 scenario_items)
        = [(Some ''labour'', Fin 50000), (Some ''sales'', Fin 150000)]
      \<and> detected (invoice_order_type scenario_registry scenario_items)
        = Some (''mixed'', [''labour'', ''sales'']))"
  by code_simp


text \<open>
  Claim C1, amended. The scenario aggregates to two entries, the first with code \<open>L100\<close>
  and the second without code. The first line item is typed \<open>labour\<close> with line total
  50000; the second has no code, keeps the default type \<open>unspecified\<close> and has line total
  150000. Only codes reach the detector, so the invoice is typed \<open>labour\<close> with the single
  category \<open>labour\<close>.
\<close>

theorem end_to_end_scenario_unspecified:
  "fields ''code'' (aggregate_items scenario_items) = Inr [PStr ''L100'', PNone]
   \<and> line_types (classify_extracted scenario_registry 1 scenario_items)
        = [(Some ''labour'', Fin 50000), (Some ''unspecified'', Fin 150000)]
   \<and> detected (invoice_order_type scenario_registry scenario_items)
        = Some (''labour'', [''labour''])"
  by code_simp

section \<open>Codes made of white space\<close>

text \<open>
  Claim C4. The empty list gives \<open>unspecified\<close>. A code made of spaces passes the test
  for emptiness, which comes before the strip, so the cleaned list holds the empty string:
  the table is queried, the empty code is reported as unmapped and the categories are
  \<open>sales\<close>; with a row whose code is empty the same input is typed by that row.
\<close>

theorem whitespace_code_kept:
  "fst (determine_order_type_from_codes scenario_registry []) = ''unspecified''
   \<and> clean_codes [Some ''   ''] = [[]]
   \<and> (case determine_order_type_from_codes scenario_registry [Some ''   ''] of
        (t, cs, i) \<Rightarrow> (t, cs, unmapped i, categories_found i, order_types_found i))
      = (''sales'', [''sales''], [[]], [''sales''], [''sales''])
   \<and> fst (determine_order_type_from_codes
            [\<lparr>code = [], category = ''labour'', is_active = True\<rparr>] [Some ''   ''])
      = ''labour''"
  by code_simp

section \<open>Revenue of line items tagged with a key of the result\<close>

text \<open>
  Claim C9. The membership test of the loop is made against the result dictionary, which
  also has the keys \<open>total\<close> and \<open>count\<close>: a line item tagged \<open>total\<close> is added to an
  entry that is overwritten afterwards, and one tagged \<open>count\<close> is added to the number of
  invoices; neither reaches the \<open>unknown\<close> bucket, where an unrecognized tag such as
  \<open>mixed\<close> goes.
\<close>

theorem revenue_total_and_count_tags:
  "buckets (get_revenue_by_order_type [1] [tagged_line (Some ''total'') 100])
     = [Some 0, Some 0, Some 0, Some 0, Some 0, Some 1]
   \<and> buckets (get_revenue_by_order_type [1] [tagged_line (Some ''count'') 100])
     = [Some 0, Some 0, Some 0, Some 0, Some 0, Some 101]
   \<and> buckets (get_revenue_by_order_type [1] [tagged_line (Some ''mixed'') 100])
     = [Some 0, Some 0, Some 0, Some 100, Some 100, Some 1]"
  by code_simp

section \<open>The result of the detector\<close>

lemma normalize_range:
  "normalize_category_to_order_type c \<in> {''labour'', ''service'', ''unspecified''}"
  by (simp add: normalize_category_to_order_type_def Let_def split: option.splits)

lemma normalize_not_mixed: "normalize_category_to_order_type c \<noteq> ''mixed''"
  using normalize_range[of c] by auto

lemma unmapped_iff:
  "(0 < length (filter (\<lambda>c. c \<notin> set (map code rows)) cleaned))
     = (\<not> set cleaned \<subseteq> code ` set rows)"
  by (auto simp: filter_empty_conv)

lemma tags_empty_input:
  "clean_codes item_codes = [] \<Longrightarrow> order_type_tags registry item_codes = {}"
  by (simp add: order_type_tags_def found_codes_def)

lemma pick_type:
  fixes types :: "string list"
  assumes d: "distinct types" and s: "set types = T" and m: "\<forall>t \<in> set types. t \<noteq> ''mixed''"
    and r: "res = (if length types = 0 then ''sales''
                   else if length types = 1 then hd types else ''mixed'')"
  shows "(res = ''mixed'') = (1 < card T)"
    and "res = ''unspecified'' \<longrightarrow> T = {''unspecified''}"
    and "T = {''sales''} \<longrightarrow> res = ''sales''"
proof -
  have c: "card T = length types"
    using d s distinct_card by fastforce
  consider "types = []" | a where "types = [a]" | "1 < length types"
    by (cases types rule: list.exhaust; cases "tl types") auto
  then have "(res = ''mixed'') = (1 < card T)
      \<and> (res = ''unspecified'' \<longrightarrow> T = {''unspecified''})
      \<and> (T = {''sales''} \<longrightarrow> res = ''sales'')"
  proof cases
    case 1
    then have "res = ''sales''" "T = {}"
      using r s by simp_all
    then show ?thesis by simp
  next
    case 2
    then have ra: "res = a" and t: "T = {a}"
      using r s by auto
    from 2 m have "a \<noteq> ''mixed''"
      by simp
    with ra t show ?thesis by simp
  next
    case 3
    then have rm: "res = ''mixed''"
      using r by auto
    have c1: "1 < card T"
      using 3 c by simp
    then have "T \<noteq> {''sales''}"
      by auto
    with rm c1 show ?thesis by simp
  qed
  then show "(res = ''mixed'') = (1 < card T)"
    and "res = ''unspecified'' \<longrightarrow> T = {''unspecified''}"
    and "T = {''sales''} \<longrightarrow> res = ''sales''"
    by blast+
qed

text \<open>
  Claim C3, amended. The detector returns \<open>mixed\<close> exactly when there is more than one
  distinct order-type tag. It returns \<open>unspecified\<close> only when the list of codes is empty
  or when \<open>unspecified\<close> is the only tag, which is the case of codes that are all mapped
  to an empty category. It returns \<open>sales\<close> when \<open>sales\<close> is the only tag.
\<close>

theorem detector_result_by_tags:
  "(fst (determine_order_type_from_codes registry item_codes) = ''mixed'')
     = (1 < card (order_type_tags registry item_codes))
   \<and> (fst (determine_order_type_from_codes registry item_codes) = ''unspecified''
        \<longrightarrow> item_codes = [] \<or> order_type_tags registry item_codes = {''unspecified''})
   \<and> (order_type_tags registry item_codes = {''sales''}
        \<longrightarrow> fst (determine_order_type_from_codes registry item_codes) = ''sales'')"
proof (cases "clean_codes item_codes = []")
  case True
  then have t: "order_type_tags registry item_codes = {}"
    by (rule tags_empty_input)
  have "fst (determine_order_type_from_codes registry item_codes)
          = (if item_codes = [] then ''unspecified'' else ''sales'')"
    using True by (simp add: determine_order_type_from_codes_def)
  with t show ?thesis by simp
next
  case False
  then have ne: "item_codes \<noteq> []"
    by (auto simp: clean_codes_def)
  define rows where "rows = found_codes registry (clean_codes item_codes)"
  define types where
    "types = remdups (map (\<lambda>c. normalize_category_to_order_type (Some c))
                          (remdups (map category rows))
                      @ (if 0 < length (filter (\<lambda>c. c \<notin> set (map code rows))
                                               (clean_codes item_codes))
                         then [''sales''] else []))"
  have r: "fst (determine_order_type_from_codes registry item_codes)
             = (if length types = 0 then ''sales''
                else if length types = 1 then hd types else ''mixed'')"
    using False ne
    by (simp add: determine_order_type_from_codes_def Let_def rows_def types_def)
  have s: "set types = order_type_tags registry item_codes"
  proof (cases "set (clean_codes item_codes) \<subseteq> code ` set rows")
    case True
    then show ?thesis
      unfolding types_def order_type_tags_def Let_def rows_def[symmetric] unmapped_iff
      by (simp add: image_image)
  next
    case False
    then show ?thesis
      unfolding types_def order_type_tags_def Let_def rows_def[symmetric] unmapped_iff
      by (simp add: image_image)
  qed
  have d: "distinct types"
    by (simp add: types_def)
  have m: "\<forall>t \<in> set types. t \<noteq> ''mixed''"
    unfolding types_def
    by (auto simp: normalize_not_mixed normalize_not_mixed[symmetric] split: if_splits)
  from pick_type[OF d s m r] show ?thesis
    by blast
qed

lemma tags_unmapped_example:
  "order_type_tags scenario_registry [Some ''Z9''] = {''sales''}"
proof -
  have c: "clean_codes [Some ''Z9''] = [''Z9'']"
    by code_simp
  have f: "found_codes scenario_registry [''Z9''] = []"
    by code_simp
  show ?thesis
    by (simp add: order_type_tags_def c f)
qed

theorem detector_result_by_tags_witness:
  "fst (determine_order_type_from_codes blank_category_registry [Some ''X'']) = ''unspecified''
   \<and> order_type_tags blank_category_registry [Some ''X''] = {''unspecified''}
   \<and> order_type_tags scenario_registry [Some ''Z9''] = {''sales''}
   \<and> fst (determine_order_type_from_codes scenario_registry [Some ''Z9'']) = ''sales''"
proof -
  have u: "fst (determine_order_type_from_codes blank_category_registry [Some ''X''])
             = ''unspecified''"
    by code_simp
  have n: "[Some ''X''] \<noteq> ([] :: string option list)"
    by simp
  note s = tags_unmapped_example
  from detector_result_by_tags[of blank_category_registry "[Some ''X'']"] u n
  have a: "order_type_tags blank_category_registry [Some ''X''] = {''unspecified''}"
    by blast
  from detector_result_by_tags[of scenario_registry "[Some ''Z9'']"] s
  have b: "fst (determine_order_type_from_codes scenario_registry [Some ''Z9'']) = ''sales''"
    by blast
  from u a s b show ?thesis by blast
qed

text \<open>
  Claim C3 as the specification states it, with \<open>unspecified\<close> returned for the empty list
  only: a code mapped to an empty category gives \<open>unspecified\<close> too.
\<close>

theorem unspecified_nonempty_counterexample:
  "fst (determine_order_type_from_codes blank_category_registry [Some ''X'']) = ''unspecified''
   \<and> [Some ''X''] \<noteq> ([] :: string option list)"
  by code_simp

section \<open>The unit price of a group\<close>




section \<open>The quantity of a group\<close>






section \<open>Aggregating the output again\<close>

lemma dropWhile_snoc_keep:
  "\<not> P a \<Longrightarrow> \<exists>ys. dropWhile P (xs @ [a]) = ys @ [a]"
  by (induction xs) auto

lemma strip_strip: "strip (strip s) = strip s"
proof (cases "dropWhile is_space s")
  case Nil
  have "strip s = rev (dropWhile is_space (rev (dropWhile is_space s)))"
    by (simp only: strip_def)
  also have "\<dots> = []"
    by (simp only: Nil rev.simps dropWhile.simps)
  finally have e: "strip s = []" .
  have "strip [] = []"
    by (simp add: strip_def)
  with e show ?thesis
    by (simp only:)
next
  case (Cons a t)
  then have na: "\<not> is_space a"
    by (metis hd_dropWhile list.sel(1) list.distinct(1))
  have "rev (a # t) = rev t @ [a]" by simp
  with dropWhile_snoc_keep[of is_space a "rev t"] na obtain ys
    where ys: "dropWhile is_space (rev (a # t)) = ys @ [a]"
    by auto
  then have s1: "strip s = a # rev ys"
    by (simp add: strip_def Cons)
  have "dropWhile is_space (ys @ [a]) = ys @ [a]"
    using ys by (metis dropWhile_idem)
  then have "strip (a # rev ys) = a # rev ys"
    using na by (simp add: strip_def)
  with s1 show ?thesis by simp
qed

lemma strip_Nil: "strip [] = []"
  by (simp add: strip_def)

lemma str_strip_stripped: "str_strip v = Inr s \<Longrightarrow> strip s = s"
  by (cases v) (auto simp: strip_strip)

lemma parse_item_read: "parse_item it = Inr p \<Longrightarrow> read_item p"
  by (auto simp: parse_item_def read_item_def item_desc_def item_code_def item_unit_def
      stripped_unit_def str_strip_stripped split: sum.splits)

lemma parse_all_read: "parse_all its = Inr ps \<Longrightarrow> list_all read_item ps"
  by (induction its arbitrary: ps) (auto simp: parse_item_read split: sum.splits)

lemma read_new_group: "read_item p \<Longrightarrow> read_group (p_key p) (new_group p)"
  by (auto simp: read_item_def read_group_def new_group_def item_key_def)

lemma read_accumulate:
  "accumulate p g = Inr g' \<Longrightarrow> read_group k g \<Longrightarrow> stripped_unit (p_unit p) \<Longrightarrow> read_group k g'"
  by (auto simp: read_group_def accumulate_def split: pyval.splits sum.splits)

lemma read_update_bucket:
  assumes "update_bucket b p = Inr b'" and "read_item p" and "\<forall>(k, g) \<in> set b. read_group k g"
  shows "\<forall>(k, g) \<in> set b'. read_group k g"
proof -
  have u: "stripped_unit (p_unit p)"
    using assms(2) by (simp add: read_item_def)
  define b1 where "b1 = (if p_key p \<in> set (map fst b) then b else b @ [(p_key p, new_group p)])"
  have r1: "\<forall>(k, g) \<in> set b1. read_group k g"
    using assms(2,3) read_new_group by (auto simp: b1_def)
  show ?thesis
  proof (cases "map_of b1 (p_key p)")
    case None
    with assms(1) have "b' = b1"
      by (simp add: update_bucket_def b1_def)
    with r1 show ?thesis by simp
  next
    case (Some g)
    with assms(1) obtain g' where a: "accumulate p g = Inr g'"
      and b': "b' = map (\<lambda>(k, v). if k = p_key p then (k, g') else (k, v)) b1"
      by (auto simp: update_bucket_def b1_def Let_def split: sum.splits)
    from Some have "(p_key p, g) \<in> set b1"
      by (rule map_of_SomeD)
    with r1 have "read_group (p_key p) g"
      by auto
    from read_accumulate[OF a this u] r1 show ?thesis
      unfolding b' by (auto split: if_splits)
  qed
qed

lemma read_update_all:
  "update_all b ps = Inr b' \<Longrightarrow> list_all read_item ps \<Longrightarrow> \<forall>(k, g) \<in> set b. read_group k g \<Longrightarrow>
     \<forall>(k, g) \<in> set b'. read_group k g"
proof (induction ps arbitrary: b)
  case Nil
  then show ?case by simp
next
  case (Cons p ps)
  from Cons.prems(1) obtain b1 where b1: "update_bucket b p = Inr b1" "update_all b1 ps = Inr b'"
    by (auto split: sum.splits)
  from Cons.prems(2) have p: "read_item p" and ps: "list_all read_item ps"
    by simp_all
  have "\<forall>(k, g) \<in> set b1. read_group k g"
    using b1(1) p Cons.prems(3) by (rule read_update_bucket)
  with Cons.IH[OF b1(2) ps] show ?case by simp
qed

text \<open>A sum that has been rounded to the context is not changed by adding it to zero.\<close>

lemma dadd_settled: "dadd a b = Inr d \<Longrightarrow> settled d"
proof (induction a b rule: dadd.induct)
  case (8 x y)
  then have r: "round_ctx (x + y) = Inr d"
    by simp
  from round_ctx_result[OF r] obtain v where v: "d = Fin v"
    by blast
  from round_ctx_idem[of "x + y" v] r v have "round_ctx v = Inr (Fin v)"
    by simp
  with v show ?case
    by (simp add: settled_def)
qed (auto simp: settled_def split: if_splits)

lemma dsum_from_settled: "dsum_from a xs = Inr d \<Longrightarrow> xs \<noteq> [] \<Longrightarrow> settled d"
proof (induction xs arbitrary: a)
  case Nil
  then show ?case by simp
next
  case (Cons x xs)
  from Cons.prems(1) obtain s where s: "dadd a x = Inr s" "dsum_from s xs = Inr d"
    by (auto split: sum.splits)
  show ?case
  proof (cases xs)
    case Nil
    with s dadd_settled[OF s(1)] show ?thesis by simp
  next
    case (Cons y ys)
    with Cons.IH[OF s(2)] show ?thesis by simp
  qed
qed

lemma settled_one: "settled (Fin 1)"
proof -
  have "round_ctx 1 = Inr (Fin 1)"
    by (rule round_ctx_exact) simp_all
  then show ?thesis
    by (simp add: settled_def)
qed

lemma settled_clamp: "settled q \<Longrightarrow> settled (clamp_qty q)"
  by (simp add: clamp_qty_def settled_one)

lemma positive_truthy: "positive d \<Longrightarrow> truthy (PNum d)"
  by (auto simp: positive_def)

text \<open>Reading the output entry of a group gives the group back, without rate and value.\<close>

lemma parse_out_item:
  assumes "out_item g = Inr e" and "read_group k g" and "g_description g \<noteq> []"
  shows "parse_item e = Inr (reparsed k g (clamp_qty (g_qty g)))"
proof -
  from out_item_Inr[OF assms(1)] obtain up where
    e: "e = [''code'' \<mapsto> g_code g,
             ''description'' \<mapsto> PStr (g_description g),
             ''qty'' \<mapsto> PNum (clamp_qty (g_qty g)),
             ''unit'' \<mapsto> (case g_unit g of None \<Rightarrow> PNone | Some u \<Rightarrow> PStr u),
             ''unit_price'' \<mapsto> PNum up]"
    by blast
  have gs: "get e ''description'' = PStr (g_description g)" "get e ''code'' = g_code g"
    "get e ''qty'' = PNum (clamp_qty (g_qty g))"
    "get e ''item_code'' = PNone" "get e ''rate'' = PNone" "get e ''value'' = PNone"
    "get e ''unit'' = (case g_unit g of None \<Rightarrow> PNone | Some u \<Rightarrow> PStr u)"
    by (simp_all add: e get_def)
  have d: "item_desc e = Inr (g_description g)"
    using assms(2,3) by (simp add: item_desc_def gs py_or_def read_group_def)
  have c: "item_code e = Inr (case g_code g of PStr c \<Rightarrow> c | _ \<Rightarrow> [])"
    using assms(2)
    by (auto simp: item_code_def gs py_or_def read_group_def strip_Nil split: pyval.splits)
  have k: "item_key (case g_code g of PStr c \<Rightarrow> c | _ \<Rightarrow> []) (g_description g) = k"
    using assms(2) by (auto simp: read_group_def item_key_def split: pyval.splits)
  have q: "item_qty e = clamp_qty (g_qty g)"
    using positive_truthy[OF positive_clamp, of "g_qty g"]
    by (simp add: item_qty_def gs py_or_def)
  have u: "item_unit e = Inr (g_unit g)"
    using assms(2)
    by (auto simp: item_unit_def gs py_or_def read_group_def stripped_unit_def
        strip_Nil split: option.splits)
  have r: "item_rate e = None" "item_value e = None"
    by (simp_all add: item_rate_def item_value_def gs)
  show ?thesis
    by (simp add: parse_item_def d c k q u r reparsed_def)
qed

lemma parse_all_map:
  "\<forall>x \<in> set xs. parse_item (f x) = Inr (h x) \<Longrightarrow> parse_all (map f xs) = Inr (map h xs)"
  by (induction xs) auto

lemma update_bucket_fresh:
  assumes "p_key p \<notin> fst ` set b" and "accumulate p (new_group p) = Inr g'"
  shows "update_bucket b p = Inr (b @ [(p_key p, g')])"
proof -
  from assms(1) have "map (\<lambda>(k, v). if k = p_key p then (k, g') else (k, v)) b = b"
    by (intro map_idI) force
  moreover from assms(1) have "map_of b (p_key p) = None"
    by (simp add: map_of_eq_None_iff)
  ultimately show ?thesis
    using assms by (simp add: update_bucket_def map_add_def)
qed

text \<open>Items with distinct keys make one group each.\<close>

lemma update_all_distinct_keys:
  "distinct (map p_key ps) \<Longrightarrow> p_key ` set ps \<inter> fst ` set b = {} \<Longrightarrow>
   \<forall>p \<in> set ps. accumulate p (new_group p) = Inr (G p) \<Longrightarrow>
     update_all b ps = Inr (b @ map (\<lambda>p. (p_key p, G p)) ps)"
proof (induction ps arbitrary: b)
  case Nil
  then show ?case by simp
next
  case (Cons p ps)
  from Cons.prems(2) have f: "p_key p \<notin> fst ` set b"
    by auto
  from Cons.prems(3) have a: "accumulate p (new_group p) = Inr (G p)"
    and as: "\<forall>p \<in> set ps. accumulate p (new_group p) = Inr (G p)"
    by simp_all
  let ?b = "b @ [(p_key p, G p)]"
  have d: "distinct (map p_key ps)"
    using Cons.prems(1) by simp
  have "p_key ` set ps \<inter> fst ` set ?b = {}"
    using Cons.prems(1,2) by auto
  from Cons.IH[OF d this as] show ?case
    by (simp add: update_bucket_fresh[OF f a])
qed

lemma finish_bucket_map:
  "\<forall>x \<in> set xs. out_item (g x) = Inr (h x) \<Longrightarrow>
     finish_bucket (map (\<lambda>x. (f x, g x)) xs) = Inr (map (\<lambda>x. (f x, h x)) xs)"
  by (induction xs) auto

lemma finish_bucket_list:
  "finish_bucket b = Inr kout \<Longrightarrow>
     \<exists>E. kout = map (\<lambda>(k, g). (k, E g)) b \<and> (\<forall>(k, g) \<in> set b. out_item g = Inr (E g))"
proof -
  assume a: "finish_bucket b = Inr kout"
  let ?E = "\<lambda>g. case out_item g of Inl x \<Rightarrow> Map.empty | Inr e \<Rightarrow> e"
  from a have "kout = map (\<lambda>(k, g). (k, ?E g)) b"
    by (induction b arbitrary: kout) (auto split: sum.splits)
  moreover have "\<forall>(k, g) \<in> set b. out_item g = Inr (?E g)"
    using finish_bucket_group[OF a] by fastforce
  ultimately show ?thesis
    by (intro exI[of _ ?E] conjI)
qed

text \<open>The group made from the output entry of a group, and its output entry.\<close>

lemma accumulate_reparsed:
  assumes "read_group k g" and "settled fq"
  shows "accumulate (reparsed k g fq) (new_group (reparsed k g fq))
           = Inr (g\<lparr>g_qty := fq, g_rates := [], g_values := []\<rparr>)"
  using assms
  by (auto simp: accumulate_def new_group_def reparsed_def read_group_def settled_def nonzero_def
      split: pyval.splits)

lemma out_item_regrouped:
  assumes "out_item g = Inr e"
  shows "out_item (g\<lparr>g_qty := clamp_qty (g_qty g), g_rates := [], g_values := []\<rparr>)
           = Inr (e(''unit_price'' \<mapsto> PNum (Fin 0)))"
proof -
  let ?g = "g\<lparr>g_qty := clamp_qty (g_qty g), g_rates := [], g_values := []\<rparr>"
  from out_item_Inr[OF assms] obtain up where
    e: "e = [''code'' \<mapsto> g_code g,
             ''description'' \<mapsto> PStr (g_description g),
             ''qty'' \<mapsto> PNum (clamp_qty (g_qty g)),
             ''unit'' \<mapsto> (case g_unit g of None \<Rightarrow> PNone | Some u \<Rightarrow> PStr u),
             ''unit_price'' \<mapsto> PNum up]"
    by blast
  have q: "final_qty ?g = Inr (clamp_qty (g_qty g))"
    by (simp add: final_qty_def positive_dgt0[OF positive_clamp])
  have p: "unit_price ?g (clamp_qty (g_qty g)) = Inr (Fin 0)"
    by (simp add: unit_price_def)
  show ?thesis
    by (simp add: out_item_def q p e)
qed

text \<open>
  Claim C2, amended. The output entries carry a unit price but neither rate nor value, so
  aggregating the output again keeps the entries, in the same order and with the same
  code, description, quantity and unit, and sets every unit price to 0. This holds when
  no entry has an empty description; an entry with an empty description, which comes
  from a description made of white space, is read again as \<open>Item\<close>.
\<close>

theorem reaggregation_resets_unit_price:
  assumes "aggregate_items items_list = Inr out"
    and "list_all (\<lambda>e. get e ''description'' \<noteq> PStr []) out"
  shows "aggregate_items out = Inr (map (\<lambda>e. e(''unit_price'' \<mapsto> PNum (Fin 0))) out)"
proof -
  from assms(1) obtain kout where ko: "aggregate_keyed items_list = Inr kout"
    and o1: "out = map snd kout"
    by (auto simp: aggregate_items_def split: sum.splits)
  let ?ps = "parsed_of items_list"
  from aggregate_keyed_Inr[OF ko] obtain b where ps: "parse_all items_list = Inr ?ps"
    and b: "update_all [] ?ps = Inr b" and fb: "finish_bucket b = Inr kout"
    by blast
  from finish_bucket_list[OF fb] obtain E where
    kout: "kout = map (\<lambda>(k, g). (k, E g)) b" and E: "\<forall>(k, g) \<in> set b. out_item g = Inr (E g)"
    by blast
  from o1 kout have out: "out = map (\<lambda>(k, g). E g) b"
    by (simp add: case_prod_unfold comp_def)
  have rd: "\<forall>(k, g) \<in> set b. read_group k g"
    by (rule read_update_all[OF b parse_all_read[OF ps]]) simp
  have ds: "\<forall>(k, g) \<in> set b. g_description g \<noteq> []"
  proof (clarify)
    fix k g assume m: "(k, g) \<in> set b" and n: "g_description g = []"
    from m E have "out_item g = Inr (E g)"
      by auto
    from out_item_get(4)[OF this] n have "get (E g) ''description'' = PStr []"
      by simp
    moreover from m have "E g \<in> set out"
      unfolding out by force
    ultimately show False
      using assms(2) by (auto simp: list_all_iff)
  qed
  have st: "\<forall>(k, g) \<in> set b. settled (clamp_qty (g_qty g))"
  proof (clarify)
    fix k g assume m: "(k, g) \<in> set b"
    from bucket_entry(1,2)[OF b m]
    have "dsum_from (Fin 0) (map p_qty (members k ?ps)) = Inr (g_qty g)"
      and "map p_qty (members k ?ps) \<noteq> []"
      by (simp_all add: group_qty_def dsum_def)
    then have "settled (g_qty g)"
      by (rule dsum_from_settled)
    then show "settled (clamp_qty (g_qty g))"
      by (rule settled_clamp)
  qed
  have db: "distinct (map fst b)"
    using update_all_distinct[OF b] by simp
  let ?h = "\<lambda>(k, g). reparsed k g (clamp_qty (g_qty g))"
  let ?G = "\<lambda>p. (new_group p)\<lparr>g_qty := p_qty p\<rparr>"
  have "\<forall>x \<in> set b. parse_item ((\<lambda>(k, g). E g) x) = Inr (?h x)"
    using rd ds E parse_out_item by fastforce
  then have p2: "parse_all out = Inr (map ?h b)"
    unfolding out by (rule parse_all_map)
  have keys: "map p_key (map ?h b) = map fst b"
    by (simp add: case_prod_unfold reparsed_def comp_def)
  have acc: "\<forall>p \<in> set (map ?h b). accumulate p (new_group p) = Inr (?G p)"
  proof
    fix p assume "p \<in> set (map ?h b)"
    then obtain k g where m: "(k, g) \<in> set b" and p: "p = reparsed k g (clamp_qty (g_qty g))"
      by auto
    from m rd st have r: "read_group k g" and s: "settled (clamp_qty (g_qty g))"
      by auto
    have "?G p = g\<lparr>g_qty := clamp_qty (g_qty g), g_rates := [], g_values := []\<rparr>"
      using r unfolding p
      by (auto simp: new_group_def reparsed_def read_group_def split: pyval.splits)
    with accumulate_reparsed[OF r s] show "accumulate p (new_group p) = Inr (?G p)"
      unfolding p by simp
  qed
  have "update_all [] (map ?h b) = Inr ([] @ map (\<lambda>p. (p_key p, ?G p)) (map ?h b))"
  proof (rule update_all_distinct_keys)
    show "distinct (map p_key (map ?h b))"
      unfolding keys by (rule db)
    show "p_key ` set (map ?h b) \<inter> fst ` set [] = {}"
      by simp
    show "\<forall>p \<in> set (map ?h b). accumulate p (new_group p) = Inr (?G p)"
      by (rule acc)
  qed
  then have f2: "fill_bucket [] out = Inr (map (\<lambda>x. (p_key (?h x), ?G (?h x))) b)"
    using fill_bucket_parsed[OF p2, of "[]"] by (simp add: comp_def)
  have "\<forall>x \<in> set b. out_item (?G (?h x)) = Inr (((\<lambda>(k, g). E g) x)(''unit_price'' \<mapsto> PNum (Fin 0)))"
  proof
    fix x assume x: "x \<in> set b"
    obtain k g where kg: "x = (k, g)" by (cases x)
    from x kg rd E have r: "read_group k g" and o: "out_item g = Inr (E g)"
      by auto
    have "?G (?h x) = g\<lparr>g_qty := clamp_qty (g_qty g), g_rates := [], g_values := []\<rparr>"
      using r unfolding kg
      by (auto simp: new_group_def reparsed_def read_group_def split: pyval.splits)
    with out_item_regrouped[OF o]
    show "out_item (?G (?h x)) = Inr (((\<lambda>(k, g). E g) x)(''unit_price'' \<mapsto> PNum (Fin 0)))"
      by (simp add: kg)
  qed
  from finish_bucket_map[OF this, of "\<lambda>x. p_key (?h x)"] f2
  have "aggregate_keyed out
          = Inr (map (\<lambda>x. (p_key (?h x), ((\<lambda>(k, g). E g) x)(''unit_price'' \<mapsto> PNum (Fin 0)))) b)"
    by (simp add: aggregate_keyed_def)
  then have "aggregate_items out
          = Inr (map (\<lambda>x. ((\<lambda>(k, g). E g) x)(''unit_price'' \<mapsto> PNum (Fin 0))) b)"
    by (simp add: aggregate_items_def comp_def)
  also have "map (\<lambda>x. ((\<lambda>(k, g). E g) x)(''unit_price'' \<mapsto> PNum (Fin 0))) b
               = map (\<lambda>e. e(''unit_price'' \<mapsto> PNum (Fin 0))) out"
    unfolding out by (simp add: comp_def)
  finally show ?thesis .
qed

theorem reaggregation_resets_unit_price_witness:
  "\<exists>out. aggregate_items rated_items = Inr out
      \<and> list_all (\<lambda>e. get e ''description'' \<noteq> PStr []) out
      \<and> fields ''unit_price'' (Inr out) = Inr [PNum (Fin 10)]
      \<and> fields ''unit_price'' (aggregate_items out) = Inr [PNum (Fin 0)]
      \<and> fields ''qty'' (aggregate_items out) = fields ''qty'' (Inr out)"
proof -
  have d: "fields ''description'' (aggregate_items rated_items) = Inr [PStr ''Item'']"
    by code_simp
  have u: "fields ''unit_price'' (aggregate_items rated_items) = Inr [PNum (Fin 10)]"
    by code_simp
  from d obtain out where h: "aggregate_items rated_items = Inr out"
    and m: "map (\<lambda>e. get e ''description'') out = [PStr ''Item'']"
    by (auto simp: fields_def split: sum.splits)
  from m obtain e where o: "out = [e]" and e: "get e ''description'' = PStr ''Item''"
    by auto
  have l: "list_all (\<lambda>e. get e ''description'' \<noteq> PStr []) out"
    using o e by simp
  from reaggregation_resets_unit_price[OF h l]
  have t: "aggregate_items [e] = Inr [e(''unit_price'' \<mapsto> PNum (Fin 0))]"
    by (simp add: o)
  have u1: "fields ''unit_price'' (Inr out) = Inr [PNum (Fin 10)]"
    using u by (simp add: h)
  have u2: "fields ''unit_price'' (aggregate_items out) = Inr [PNum (Fin 0)]"
    by (simp add: o t fields_def get_def)
  have q: "fields ''qty'' (aggregate_items out) = fields ''qty'' (Inr out)"
    by (simp add: o t fields_def get_def)
  from h l u1 u2 q show ?thesis by blast
qed

text \<open>
  Claim C2 as the specification states it, with the unit price kept by a second
  aggregation: a row with a rate of 10 has unit price 10 after one aggregation and 0
  after two.
\<close>

theorem reaggregation_unit_price_counterexample:
  "fields ''unit_price'' (aggregate_twice rated_items)
     \<noteq> fields ''unit_price'' (aggregate_items rated_items)"
  by code_simp

end
